theory Spec2Isabelle
  imports Complex_Main "HOL-Library.Word" "HOL-Library.Signed_Division"
begin

unbundle bit_operations_syntax

chapter \<open>A shallow embedding of the cellular fluid simulator\<close>

section \<open>Model\<close>

subsection \<open>Failures\<close>

text \<open>
  Every way in which the C++ code can leave its normal control flow is a value of
  \<open>error\<close>: \<open>RuntimeError msg\<close> is a thrown \<^verbatim>\<open>std::runtime_error(msg)\<close>,
  \<open>InvalidArgument\<close> is the \<^verbatim>\<open>std::invalid_argument\<close> of \<^verbatim>\<open>std::stod\<close>,
  \<open>OutOfBounds\<close> is an access outside a container (a failed position \<^verbatim>\<open>assert\<close> where
  the code has one, undefined behaviour of \<^verbatim>\<open>operator[]\<close> where it has none), and
  \<open>AssertionFailed\<close> is the failed \<^verbatim>\<open>assert(new_v <= old_v)\<close> of \<^verbatim>\<open>run\<close>.
  \<open>Exhausted\<close> is not an outcome of the program: the recursive routines and the
  unbounded loops of the engine take a budget of nested calls and rounds, and this is
  their result when the budget is used up.
\<close>

datatype error = RuntimeError string | InvalidArgument | OutOfBounds | AssertionFailed | Exhausted

abbreviation InvalidDelta :: error where
  "InvalidDelta \<equiv> RuntimeError ''Invalid delta values''"

definition sbind :: "error + 'b \<Rightarrow> ('b \<Rightarrow> error + 'c) \<Rightarrow> error + 'c" where
  "sbind m f = (case m of Inl e \<Rightarrow> Inl e | Inr r \<Rightarrow> f r)"

fun mapM :: "('b \<Rightarrow> error + 'c) \<Rightarrow> 'b list \<Rightarrow> error + 'c list" where
  "mapM f [] = Inr []"
| "mapM f (x # xs) = sbind (f x) (\<lambda>r. sbind (mapM f xs) (\<lambda>rs. Inr (r # rs)))"

fun forM :: "'b list \<Rightarrow> ('b \<Rightarrow> 's \<Rightarrow> error + 's) \<Rightarrow> 's \<Rightarrow> error + 's" where
  "forM [] f s = Inr s"
| "forM (x # xs) f s = sbind (f x s) (forM xs f)"

subsection \<open>Containers\<close>

text \<open>
  Indices of the engine are C++ \<^verbatim>\<open>int\<close>s and \<^verbatim>\<open>size_t\<close>s; both are integers here, and an
  index below zero (as a \<^verbatim>\<open>size_t\<close>: beyond every container) is out of bounds like one
  that is too large. \<open>at1\<close>, \<open>at2\<close> and \<open>put2\<close> are \<^verbatim>\<open>a[x]\<close> and \<^verbatim>\<open>a[x][y]\<close> on vectors
  and arrays. A \<^verbatim>\<open>std::string\<close> may also be read at its length, where it holds the
  terminating zero (\<open>str_at\<close>).
\<close>

definition at1 :: "'b list \<Rightarrow> int \<Rightarrow> error + 'b" where
  "at1 a x = (if 0 \<le> x \<and> nat x < length a then Inr (a ! nat x) else Inl OutOfBounds)"

definition at2 :: "'b list list \<Rightarrow> int \<Rightarrow> int \<Rightarrow> error + 'b" where
  "at2 a x y =
     (if 0 \<le> x \<and> nat x < length a \<and> 0 \<le> y \<and> nat y < length (a ! nat x)
      then Inr (a ! nat x ! nat y) else Inl OutOfBounds)"

definition put2 :: "'b list list \<Rightarrow> int \<Rightarrow> int \<Rightarrow> 'b \<Rightarrow> error + 'b list list" where
  "put2 a x y t =
     (if 0 \<le> x \<and> nat x < length a \<and> 0 \<le> y \<and> nat y < length (a ! nat x)
      then Inr (a[nat x := (a ! nat x)[nat y := t]]) else Inl OutOfBounds)"

definition str_at :: "string \<Rightarrow> int \<Rightarrow> error + char" where
  "str_at l y =
     (if 0 \<le> y \<and> nat y < length l then Inr (l ! nat y)
      else if y = int (length l) then Inr (CHR 0x00) else Inl OutOfBounds)"

definition char_at :: "string list \<Rightarrow> int \<Rightarrow> int \<Rightarrow> error + char" where
  "char_at f x y = sbind (at1 f x) (\<lambda>l. str_at l y)"

definition upto_int :: "nat \<Rightarrow> int list" where
  "upto_int n = map int [0..<n]"

text \<open>\<^verbatim>\<open>std::vector::resize(n, x)\<close>.\<close>

definition resize :: "nat \<Rightarrow> 'b \<Rightarrow> 'b list \<Rightarrow> 'b list" where
  "resize n x xs = take n xs @ replicate (n - length xs) x"

subsection \<open>Fixed-point numbers (fixed.h)\<close>

text \<open>
  \<^verbatim>\<open>Fixed<N, K>\<close> stores one \<^verbatim>\<open>int64_t v\<close>, whatever \<open>N\<close> is; the template
  parameter \<open>K\<close> is an argument of the operations here. The raw value is a 64-bit word:
  \<open>*\<close> and \<open>push_bit\<close> wrap around, \<^verbatim>\<open>>>\<close> on a signed operand is the arithmetic shift
  \<open>signed_drop_bit\<close>, and \<^verbatim>\<open>/\<close> is the truncating division of C++, which is undefined
  for a zero divisor and for \<open>INT64_MIN / -1\<close> (the result \<open>None\<close>).
\<close>

datatype Fixed = Fixed (raw_v: "64 word")

definition from_raw :: "64 word \<Rightarrow> Fixed" where
  "from_raw x = Fixed x"

definition fixed_mul :: "nat \<Rightarrow> Fixed \<Rightarrow> Fixed \<Rightarrow> Fixed" where
  "fixed_mul K a b = from_raw (signed_drop_bit K (raw_v a * raw_v b))"

definition int64_div :: "64 word \<Rightarrow> 64 word \<Rightarrow> 64 word option" where
  "int64_div x y =
     (if y = 0 \<or> (x = - (2 ^ 63) \<and> y = - 1) then None
      else Some (word_of_int (sint x sdiv sint y)))"

definition fixed_div :: "nat \<Rightarrow> Fixed \<Rightarrow> Fixed \<Rightarrow> Fixed option" where
  "fixed_div K a b = map_option from_raw (int64_div (push_bit K (raw_v a)) (raw_v b))"

text \<open>Rounding a real number to the next integer in the direction of zero.\<close>

definition toward_zero :: "real \<Rightarrow> int" where
  "toward_zero r = (if 0 \<le> r then \<lfloor>r\<rfloor> else \<lceil>r\<rceil>)"

subsection \<open>The directional field (vector\_field.h, class VectorField)\<close>

text \<open>
  \<^verbatim>\<open>std::vector<std::vector<std::array<T, 4>>>\<close> is a list of rows of cells, a cell
  being the list of its four directional values. \<open>at3\<close> and \<open>put3\<close> are the element
  access \<^verbatim>\<open>v[x][y][i]\<close>, read and written, with the range of each index checked.
\<close>

type_synonym 'a vector_field = "'a list list list"

definition deltas :: "(int \<times> int) list" where
  "deltas = [(- 1, 0), (1, 0), (0, - 1), (0, 1)]"

definition at3 :: "'a vector_field \<Rightarrow> nat \<Rightarrow> nat \<Rightarrow> nat \<Rightarrow> error + 'a" where
  "at3 v x y i =
     (if x < length v \<and> y < length (v ! x) \<and> i < length (v ! x ! y)
      then Inr (v ! x ! y ! i) else Inl OutOfBounds)"

definition put3 :: "'a vector_field \<Rightarrow> nat \<Rightarrow> nat \<Rightarrow> nat \<Rightarrow> 'a \<Rightarrow> error + 'a vector_field" where
  "put3 v x y i t =
     (if x < length v \<and> y < length (v ! x) \<and> i < length (v ! x ! y)
      then Inr (v[x := (v ! x)[y := (v ! x ! y)[i := t]]]) else Inl OutOfBounds)"

text \<open>
  \<^verbatim>\<open>std::distance(deltas.begin(), std::find(deltas.begin(), deltas.end(), d))\<close>:
  the position of the first element equal to \<open>d\<close>, the length when there is none.
\<close>

fun find_pos :: "'b list \<Rightarrow> 'b \<Rightarrow> nat" where
  "find_pos [] d = 0"
| "find_pos (e # es) d = (if e = d then 0 else Suc (find_pos es d))"

definition VectorField_init :: "nat \<Rightarrow> nat \<Rightarrow> ('a::zero) vector_field" where
  "VectorField_init r c = replicate r (replicate c (replicate 4 0))"

definition VectorField_rows :: "'a vector_field \<Rightarrow> nat" where
  "VectorField_rows v = length v"

definition VectorField_cols :: "'a vector_field \<Rightarrow> nat" where
  "VectorField_cols v = (if v = [] then 0 else length (v ! 0))"

definition is_valid_position :: "'a vector_field \<Rightarrow> nat \<Rightarrow> nat \<Rightarrow> bool" where
  "is_valid_position v x y \<longleftrightarrow> x < VectorField_rows v \<and> y < VectorField_cols v"

text \<open>
  \<^verbatim>\<open>add\<close> asserts the position, throws on a delta that \<^verbatim>\<open>std::find\<close> does not
  find, and returns a reference to the incremented entry: here the new field and the
  new value.
\<close>

definition VectorField_add ::
  "('a::plus) vector_field \<Rightarrow> nat \<Rightarrow> nat \<Rightarrow> int \<Rightarrow> int \<Rightarrow> 'a \<Rightarrow> (int \<times> int) list
     \<Rightarrow> error + ('a vector_field \<times> 'a)" where
  "VectorField_add v x y dx dy dv ds =
     (if \<not> is_valid_position v x y then Inl OutOfBounds
      else let i = find_pos ds (dx, dy) in
        if i = length ds then Inl InvalidDelta
        else (case at3 v x y i of
                Inl e \<Rightarrow> Inl e
              | Inr t \<Rightarrow> (case put3 v x y i (t + dv) of
                            Inl e \<Rightarrow> Inl e
                          | Inr v' \<Rightarrow> Inr (v', t + dv))))"

text \<open>
  \<^verbatim>\<open>get\<close> has neither the assertion nor the test of the iterator: it indexes the cell
  with whatever position \<^verbatim>\<open>std::find\<close> gave.
\<close>

definition VectorField_get ::
  "'a vector_field \<Rightarrow> nat \<Rightarrow> nat \<Rightarrow> int \<Rightarrow> int \<Rightarrow> (int \<times> int) list \<Rightarrow> error + 'a" where
  "VectorField_get v x y dx dy ds = at3 v x y (find_pos ds (dx, dy))"

subsection \<open>The simulator state (simulator.h, class FluidSimulator)\<close>

text \<open>
  The three numeric slots \<open>PType\<close>, \<open>VType\<close> and \<open>VFType\<close> are one type \<open>'a\<close>, an
  ordered field: \<^verbatim>\<open>createSimulatorInstance\<close> instantiates the three with the same
  type, and the arithmetic is exact here. The members keep their names. \<open>rnd\<close>, the
  generator \<^verbatim>\<open>std::mt19937\<close>, is the sequence of the numbers that
  \<^verbatim>\<open>uniform_real_distribution(0.0, 1.0)\<close> is going to draw from it. \<open>last_use\<close> holds
  \<^verbatim>\<open>int\<close>s and \<open>UT\<close> is a \<^verbatim>\<open>size_t\<close>; the stamps are compared as integers, which is
  what the conversions of C++ do while \<open>UT\<close> is below \<open>2 ^ 31\<close>. The last field,
  \<open>flow_calls\<close>, is not a member of the class: it counts the entries into
  \<^verbatim>\<open>propagate_flow\<close>, to state how much work a sweep does.
\<close>

record 'a simulator =
  field_data :: "string list"
  p :: "'a list list"
  old_p :: "'a list list"
  velocity :: "'a vector_field"
  velocity_flow :: "'a vector_field"
  last_use :: "int list list"
  rnd :: "nat \<Rightarrow> 'a"
  rows :: nat
  cols :: nat
  UT :: nat
  rho :: "'a list"
  g :: 'a
  field :: "string list"
  static_p :: "'a list list"
  static_old_p :: "'a list list"
  static_velocity :: "'a vector_field"
  static_velocity_flow :: "'a vector_field"
  static_last_use :: "int list list"
  use_static :: bool
  flow_calls :: nat

record 'a ParticleParams =
  pp_type :: char
  pp_cur_p :: 'a
  pp_v :: "'a list"

definition random01 :: "'a simulator \<Rightarrow> 'a \<times> 'a simulator" where
  "random01 s = (rnd s 0, s\<lparr>rnd := (\<lambda>n. rnd s (Suc n))\<rparr>)"

text \<open>
  \<^verbatim>\<open>ParticleParams::swap_with\<close>: the character and the pressure of the cell are
  exchanged with the ones held in the parameter block; the velocity array of the cell is
  copied into the block with \<^verbatim>\<open>get_array\<close> and then stored back with \<^verbatim>\<open>set_array\<close>.
\<close>

definition swap_with ::
  "'a ParticleParams \<Rightarrow> 'a simulator \<Rightarrow> int \<Rightarrow> int \<Rightarrow> error + ('a ParticleParams \<times> 'a simulator)" where
  "swap_with pp s x y =
     (if use_static s then
        sbind (at2 (field s) x y) (\<lambda>c.
        sbind (put2 (field s) x y (pp_type pp)) (\<lambda>f'.
        sbind (at2 (static_p s) x y) (\<lambda>pr.
        sbind (put2 (static_p s) x y (pp_cur_p pp)) (\<lambda>p'.
        sbind (at2 (static_velocity s) x y) (\<lambda>arr.
        sbind (put2 (static_velocity s) x y arr) (\<lambda>v'.
          Inr (pp\<lparr>pp_type := c, pp_cur_p := pr, pp_v := arr\<rparr>,
               s\<lparr>field := f', static_p := p', static_velocity := v'\<rparr>)))))))
      else
        sbind (at2 (field_data s) x y) (\<lambda>c.
        sbind (put2 (field_data s) x y (pp_type pp)) (\<lambda>f'.
        sbind (at2 (p s) x y) (\<lambda>pr.
        sbind (put2 (p s) x y (pp_cur_p pp)) (\<lambda>p'.
        sbind (at2 (velocity s) x y) (\<lambda>arr.
        sbind (put2 (velocity s) x y arr) (\<lambda>v'.
          Inr (pp\<lparr>pp_type := c, pp_cur_p := pr, pp_v := arr\<rparr>,
               s\<lparr>field_data := f', p := p', velocity := v'\<rparr>))))))))"

text \<open>
  The three calls at the end of \<^verbatim>\<open>propagate_move\<close>, on a value-initialised block
  \<^verbatim>\<open>ParticleParams pp{}\<close>.
\<close>

definition ParticleParams_init :: "('a::zero) ParticleParams" where
  "ParticleParams_init = \<lparr>pp_type = CHR 0x00, pp_cur_p = 0, pp_v = replicate 4 0\<rparr>"

definition swap_particles :: "('a::zero) simulator \<Rightarrow> int \<Rightarrow> int \<Rightarrow> int \<Rightarrow> int \<Rightarrow> error + 'a simulator" where
  "swap_particles s x y tx ty =
     sbind (swap_with ParticleParams_init s x y) (\<lambda>(pp1, s1).
     sbind (swap_with pp1 s1 tx ty) (\<lambda>(pp2, s2).
     sbind (swap_with pp2 s2 x y) (\<lambda>(pp3, s3). Inr s3)))"

subsection \<open>Construction and checkpoints\<close>

text \<open>
  The extraction \<^verbatim>\<open>ss >> rows >> cols\<close>, \<^verbatim>\<open>std::stod\<close>, the extraction of a density
  line \<^verbatim>\<open>symbol equals value\<close> and the generator are library code and are parameters:
  \<open>parse_size\<close> gives the two extents (zero where the extraction fails), \<open>stod\<close> is
  \<open>None\<close> where \<^verbatim>\<open>std::stod\<close> throws, \<open>parse_rho\<close> is \<open>None\<close> where the line does
  not parse, and \<open>mt19937 seed\<close> is the sequence of draws of a generator seeded with
  \<open>seed\<close>. \<open>N\<close> and \<open>K\<close> are the template arguments. \<^verbatim>\<open>char\<close> is taken signed, so that
  the characters from 128 on index \<open>rho\<close> outside its 256 entries.
\<close>

definition rho_index :: "char \<Rightarrow> error + nat" where
  "rho_index c = (if (of_char c :: nat) < 128 then Inr (of_char c) else Inl OutOfBounds)"

definition FluidSimulator_members ::
  "nat \<Rightarrow> nat \<Rightarrow> (nat \<Rightarrow> 'a) \<Rightarrow> string list \<Rightarrow> ('a::field) simulator" where
  "FluidSimulator_members N K gen field_data_input =
     \<lparr>field_data = field_data_input, p = [], old_p = [], velocity = [], velocity_flow = [],
      last_use = [], rnd = gen, rows = 0, cols = 0, UT = 0, rho = [], g = 0,
      field = replicate N (replicate (K + 1) (CHR 0x00)),
      static_p = replicate N (replicate K 0), static_old_p = replicate N (replicate K 0),
      static_velocity = replicate N (replicate K (replicate 4 0)),
      static_velocity_flow = replicate N (replicate K (replicate 4 0)),
      static_last_use = replicate N (replicate K 0),
      use_static = (N > 0 \<and> K > 0), flow_calls = 0\<rparr>"

definition set_rho :: "(string \<Rightarrow> (char \<times> 'a) option) \<Rightarrow> string \<Rightarrow> 'a list \<Rightarrow> error + 'a list" where
  "set_rho parse_rho line r =
     (if line = [] then Inr r
      else case parse_rho line of
             None \<Rightarrow> Inr r
           | Some (symbol, val) \<Rightarrow>
               sbind (rho_index symbol) (\<lambda>i.
                 if i < length r then Inr (r[i := val]) else Inl OutOfBounds))"

definition initialize_field ::
  "nat \<Rightarrow> nat \<Rightarrow> (string \<Rightarrow> nat \<times> nat) \<Rightarrow> (string \<Rightarrow> 'a option)
     \<Rightarrow> (string \<Rightarrow> (char \<times> 'a) option) \<Rightarrow> ('a::field) simulator \<Rightarrow> error + 'a simulator" where
  "initialize_field N K parse_size stod parse_rho s =
     sbind (at1 (field_data s) 0) (\<lambda>l0.
     let (r, c) = parse_size l0 in
     sbind (at1 (field_data s) 1) (\<lambda>l1.
     case stod l1 of
       None \<Rightarrow> Inl InvalidArgument
     | Some gv \<Rightarrow>
         if r > N \<and> N \<noteq> 0 then Inl (RuntimeError ''Invalid rows'')
         else if c > K \<and> K \<noteq> 0 then Inl (RuntimeError ''Invalid cols'')
         else if r = 0 \<or> c = 0 then Inl (RuntimeError ''Invalid rows or cols'')
         else if length (field_data s) < 2 + r then Inl OutOfBounds
         else
           let field_lines = take r (drop 2 (field_data s)) in
           sbind (forM (drop (2 + r) (field_data s)) (set_rho parse_rho)
                    (resize 256 (1 / 100) (rho s)))
             (\<lambda>rh.
               let s1 = s\<lparr>rows := r, cols := c, g := gv, rho := rh\<rparr> in
               if use_static s then
                 sbind (mapM (\<lambda>x. mapM (\<lambda>y. char_at field_lines x y) (upto_int c)) (upto_int r))
                   (\<lambda>chars.
                     Inr (s1\<lparr>field := map (\<lambda>(new, old). new @ drop (length new) old)
                                         (zip chars (field s))
                                       @ drop r (field s)\<rparr>))
               else
                 Inr (s1\<lparr>field_data := field_lines,
                         p := resize r (replicate c 0) (p s),
                         old_p := resize r (replicate c 0) (old_p s),
                         velocity := VectorField_init r c,
                         velocity_flow := VectorField_init r c,
                         last_use := resize r (replicate c 0) (last_use s)\<rparr>))))"

text \<open>The constructor: the member initialisers, \<^verbatim>\<open>rnd(1337)\<close>, then \<^verbatim>\<open>initialize_field()\<close>.\<close>

definition FluidSimulator ::
  "nat \<Rightarrow> nat \<Rightarrow> (string \<Rightarrow> nat \<times> nat) \<Rightarrow> (string \<Rightarrow> 'a option)
     \<Rightarrow> (string \<Rightarrow> (char \<times> 'a) option) \<Rightarrow> (nat \<Rightarrow> nat \<Rightarrow> 'a) \<Rightarrow> string list
     \<Rightarrow> error + ('a::field) simulator" where
  "FluidSimulator N K parse_size stod parse_rho mt19937 field_data_input =
     initialize_field N K parse_size stod parse_rho
       (FluidSimulator_members N K (mt19937 1337) field_data_input)"

text \<open>
  \<^verbatim>\<open>save_state\<close>: the lines written to the file, the file taken to open. \<open>show_size\<close>
  and \<open>show_num\<close> are the stream insertions of a \<^verbatim>\<open>size_t\<close> and of a number.
\<close>

definition save_state ::
  "(nat \<Rightarrow> string) \<Rightarrow> ('a \<Rightarrow> string) \<Rightarrow> ('a::field) simulator \<Rightarrow> error + string list" where
  "save_state show_size show_num s =
     sbind (if \<not> use_static s
            then mapM (\<lambda>x. at1 (field_data s) x) (upto_int (rows s))
            else mapM (\<lambda>x. mapM (\<lambda>y. at2 (field s) x y) (upto_int (cols s))) (upto_int (rows s)))
       (\<lambda>field_lines.
          Inr ([show_size (rows s) @ '' '' @ show_size (cols s), show_num (g s)]
               @ field_lines
               @ map (\<lambda>i. char_of i # '' = '' @ show_num (rho s ! i))
                   (filter (\<lambda>i. rho s ! i \<noteq> 1 / 100) [0..<length (rho s)])))"

subsection \<open>The tick (FluidSimulator::run and the propagation routines)\<close>

text \<open>
  The engine is modelled in its dynamic storage mode, \<open>N = K = 0\<close>, which is the mode
  of the simulators that \<^verbatim>\<open>createSimulatorInstance\<close> builds: \<^verbatim>\<open>use_static\<close> is false and
  the branches into the \<^verbatim>\<open>static_\<close> routines are not taken. The accesses to
  \<^verbatim>\<open>velocity\<close> and \<^verbatim>\<open>velocity_flow\<close> go through \<^verbatim>\<open>VectorField::get\<close> and
  \<^verbatim>\<open>VectorField::add\<close> with the table \<open>deltas\<close>; \<open>velocity_set\<close> is an assignment
  through the reference that \<^verbatim>\<open>get\<close> returns.
\<close>

definition velocity_get :: "'a vector_field \<Rightarrow> int \<Rightarrow> int \<Rightarrow> int \<Rightarrow> int \<Rightarrow> error + 'a" where
  "velocity_get v x y dx dy =
     (if x < 0 \<or> y < 0 then Inl OutOfBounds
      else VectorField_get v (nat x) (nat y) dx dy deltas)"

definition velocity_set ::
  "'a vector_field \<Rightarrow> int \<Rightarrow> int \<Rightarrow> int \<Rightarrow> int \<Rightarrow> 'a \<Rightarrow> error + 'a vector_field" where
  "velocity_set v x y dx dy t =
     (if x < 0 \<or> y < 0 then Inl OutOfBounds
      else put3 v (nat x) (nat y) (find_pos deltas (dx, dy)) t)"

definition velocity_add ::
  "('a::plus) vector_field \<Rightarrow> int \<Rightarrow> int \<Rightarrow> int \<Rightarrow> int \<Rightarrow> 'a \<Rightarrow> error + 'a vector_field" where
  "velocity_add v x y dx dy dv =
     (if x < 0 \<or> y < 0 then Inl OutOfBounds
      else sbind (VectorField_add v (nat x) (nat y) dx dy dv deltas) (\<lambda>(v', t). Inr v'))"

definition rho_at :: "'a simulator \<Rightarrow> char \<Rightarrow> error + 'a" where
  "rho_at s c = sbind (rho_index c) (\<lambda>i. at1 (rho s) (int i))"

definition in_grid :: "'a simulator \<Rightarrow> int \<Rightarrow> int \<Rightarrow> bool" where
  "in_grid s x y \<longleftrightarrow> 0 \<le> x \<and> 0 \<le> y \<and> x < int (rows s) \<and> y < int (cols s)"

definition cells :: "'a simulator \<Rightarrow> (int \<times> int) list" where
  "cells s = List.product (upto_int (rows s)) (upto_int (cols s))"

text \<open>
  \<^verbatim>\<open>dirs\<close>, computed once at the start of \<^verbatim>\<open>run\<close>: the number of neighbours of a
  cell that are inside the grid and not walls. The test \<^verbatim>\<open>x + dx >= 0\<close> of the source is
  made on a \<^verbatim>\<open>size_t\<close>, where \<open>-1\<close> wraps to a value that fails \<^verbatim>\<open>x + dx < rows\<close>.
\<close>

definition cell_dirs :: "'a simulator \<Rightarrow> int \<Rightarrow> int \<Rightarrow> error + int" where
  "cell_dirs s x y =
     sbind (char_at (field_data s) x y) (\<lambda>c.
       if c = CHR ''#'' then Inr 0
       else forM deltas (\<lambda>(dx, dy) n.
              if in_grid s (x + dx) (y + dy)
              then sbind (char_at (field_data s) (x + dx) (y + dy)) (\<lambda>c'.
                     Inr (n + (if c' \<noteq> CHR ''#'' then 1 else 0)))
              else Inr n) 0)"

definition count_dirs :: "'a simulator \<Rightarrow> error + int list list" where
  "count_dirs s =
     mapM (\<lambda>x. mapM (\<lambda>y. cell_dirs s x y) (upto_int (cols s))) (upto_int (rows s))"

text \<open>Phase A, gravity (simulator.h:422-428). The read of row \<open>x + 1\<close> has no test.\<close>

definition run_gravity :: "('a::plus) simulator \<Rightarrow> error + 'a simulator" where
  "run_gravity s0 =
     forM (cells s0) (\<lambda>(x, y) s.
       sbind (char_at (field_data s) x y) (\<lambda>c.
         if c = CHR ''#'' then Inr s
         else sbind (char_at (field_data s) (x + 1) y) (\<lambda>c'.
                if c' \<noteq> CHR ''#''
                then sbind (velocity_add (velocity s) x y 1 0 (g s)) (\<lambda>v'.
                       Inr (s\<lparr>velocity := v'\<rparr>))
                else Inr s))) s0"

text \<open>Phase B, the forces of the pressure differences (simulator.h:430-455).\<close>

definition pressure_dir ::
  "int list list \<Rightarrow> int \<Rightarrow> int \<Rightarrow> int \<times> int \<Rightarrow> ('a::linordered_field) simulator
     \<Rightarrow> error + 'a simulator" where
  "pressure_dir dirs x y = (\<lambda>(dx, dy) s.
     let nx = x + dx; ny = y + dy in
     if \<not> in_grid s nx ny then Inr s
     else
       sbind (char_at (field_data s) nx ny) (\<lambda>cn.
       if cn = CHR ''#'' then Inr s
       else
         sbind (at2 (old_p s) nx ny) (\<lambda>pn.
         sbind (at2 (old_p s) x y) (\<lambda>pc.
         if \<not> pn < pc then Inr s
         else
           let force = pc - pn in
           sbind (velocity_get (velocity s) nx ny (- dx) (- dy)) (\<lambda>contr.
           sbind (rho_at s cn) (\<lambda>rn.
           if contr * rn \<ge> force
           then sbind (velocity_set (velocity s) nx ny (- dx) (- dy) (contr - force / rn)) (\<lambda>v'.
                  Inr (s\<lparr>velocity := v'\<rparr>))
           else
             let force = force - contr * rn in
             sbind (velocity_set (velocity s) nx ny (- dx) (- dy) 0) (\<lambda>v1.
             sbind (char_at (field_data s) x y) (\<lambda>cc.
             sbind (rho_at s cc) (\<lambda>rc.
             sbind (velocity_add v1 x y dx dy (force / rc)) (\<lambda>v2.
             sbind (at2 dirs x y) (\<lambda>d.
             sbind (at2 (p s) x y) (\<lambda>pxy.
             sbind (put2 (p s) x y (pxy - force / of_int d)) (\<lambda>p'.
               Inr (s\<lparr>velocity := v2, p := p'\<rparr>))))))))))))))"

definition run_pressure ::
  "int list list \<Rightarrow> ('a::linordered_field) simulator \<Rightarrow> error + 'a simulator" where
  "run_pressure dirs s0 =
     forM (cells s0) (\<lambda>(x, y) s.
       sbind (char_at (field_data s) x y) (\<lambda>c.
         if c = CHR ''#'' then Inr s
         else forM deltas (pressure_dir dirs x y) s)) (s0\<lparr>old_p := p s0\<rparr>)"


text \<open>
  \<^verbatim>\<open>propagate_flow\<close> (simulator.h:277-327). \<open>flow_dirs\<close> is its loop over the
  directions, with \<open>rec\<close> for the recursive call; \<open>propagate_flow n\<close> may nest \<open>n\<close> calls,
  and counts each entry in \<open>flow_calls\<close>.
\<close>

fun flow_dirs ::
  "('a simulator \<Rightarrow> int \<Rightarrow> int \<Rightarrow> 'a \<Rightarrow> error + ('a simulator \<times> 'a \<times> bool \<times> (int \<times> int)))
     \<Rightarrow> ('a::linordered_field) simulator \<Rightarrow> int \<Rightarrow> int \<Rightarrow> 'a \<Rightarrow> 'a \<Rightarrow> (int \<times> int) list
     \<Rightarrow> error + ('a simulator \<times> 'a \<times> bool \<times> (int \<times> int))" where
  "flow_dirs rec s x y lmt ret [] =
     sbind (put2 (last_use s) x y (int (UT s))) (\<lambda>lu.
       Inr (s\<lparr>last_use := lu\<rparr>, ret, False, (0, 0)))"
| "flow_dirs rec s x y lmt ret ((dx, dy) # ds) =
     (let nx = x + dx; ny = y + dy in
      if \<not> in_grid s nx ny then flow_dirs rec s x y lmt ret ds
      else
        sbind (char_at (field_data s) nx ny) (\<lambda>c.
        if c = CHR ''#'' then flow_dirs rec s x y lmt ret ds
        else
          sbind (at2 (last_use s) nx ny) (\<lambda>l.
          if \<not> l < int (UT s) then flow_dirs rec s x y lmt ret ds
          else
            sbind (velocity_get (velocity s) x y dx dy) (\<lambda>cap.
            sbind (velocity_get (velocity_flow s) x y dx dy) (\<lambda>flow.
            if flow = cap then flow_dirs rec s x y lmt ret ds
            else
              let vp = min lmt (cap - flow) in
              if l = int (UT s) - 1
              then
                sbind (velocity_add (velocity_flow s) x y dx dy vp) (\<lambda>vf.
                sbind (put2 (last_use s) x y (int (UT s))) (\<lambda>lu.
                  Inr (s\<lparr>velocity_flow := vf, last_use := lu\<rparr>, vp, True, (nx, ny))))
              else
                sbind (rec s nx ny vp) (\<lambda>(s', t, prop, endp).
                if prop
                then
                  sbind (velocity_add (velocity_flow s') x y dx dy t) (\<lambda>vf.
                  sbind (put2 (last_use s') x y (int (UT s'))) (\<lambda>lu.
                    Inr (s'\<lparr>velocity_flow := vf, last_use := lu\<rparr>,
                         t, prop \<and> endp \<noteq> (x, y), endp)))
                else flow_dirs rec s' x y lmt (ret + t) ds))))))"

primrec propagate_flow ::
  "nat \<Rightarrow> ('a::linordered_field) simulator \<Rightarrow> int \<Rightarrow> int \<Rightarrow> 'a
     \<Rightarrow> error + ('a simulator \<times> 'a \<times> bool \<times> (int \<times> int))" where
  "propagate_flow 0 = (\<lambda>s x y lmt. Inl Exhausted)"
| "propagate_flow (Suc n) = (\<lambda>s x y lmt.
     sbind (put2 (last_use s) x y (int (UT s) - 1)) (\<lambda>lu.
       let s1 = s\<lparr>last_use := lu, flow_calls := flow_calls s + 1\<rparr> in
       if x < 0 \<or> y < 0 \<or> x \<ge> int (rows s1) \<or> y \<ge> int (cols s1) then Inr (s1, 0, False, (0, 0))
       else
         sbind (char_at (field_data s1) x y) (\<lambda>c.
           if c = CHR ''#'' then Inr (s1, 0, False, (0, 0))
           else flow_dirs (propagate_flow n) s1 x y lmt 0 deltas)))"

text \<open>\<^verbatim>\<open>propagate_stop\<close> (simulator.h:329-364): the test of the outflow, then the loop.\<close>

fun stop_check :: "('a::linordered_field) simulator \<Rightarrow> int \<Rightarrow> int \<Rightarrow> (int \<times> int) list \<Rightarrow> error + bool" where
  "stop_check s x y [] = Inr True"
| "stop_check s x y ((dx, dy) # ds) =
     (let nx = x + dx; ny = y + dy in
      if in_grid s nx ny
      then
        sbind (char_at (field_data s) nx ny) (\<lambda>c.
        if c \<noteq> CHR ''#''
        then
          sbind (at2 (last_use s) nx ny) (\<lambda>l.
          if l < int (UT s) - 1
          then
            sbind (velocity_get (velocity s) x y dx dy) (\<lambda>v.
            if v > 0 then Inr False else stop_check s x y ds)
          else stop_check s x y ds)
        else stop_check s x y ds)
      else stop_check s x y ds)"

fun stop_dirs ::
  "('a simulator \<Rightarrow> int \<Rightarrow> int \<Rightarrow> bool \<Rightarrow> error + 'a simulator)
     \<Rightarrow> ('a::linordered_field) simulator \<Rightarrow> int \<Rightarrow> int \<Rightarrow> (int \<times> int) list \<Rightarrow> error + 'a simulator" where
  "stop_dirs rec s x y [] = Inr s"
| "stop_dirs rec s x y ((dx, dy) # ds) =
     (let nx = x + dx; ny = y + dy in
      if \<not> in_grid s nx ny then stop_dirs rec s x y ds
      else
        sbind (char_at (field_data s) nx ny) (\<lambda>c.
        if c = CHR ''#'' then stop_dirs rec s x y ds
        else
          sbind (at2 (last_use s) nx ny) (\<lambda>l.
          if l = int (UT s) then stop_dirs rec s x y ds
          else
            sbind (velocity_get (velocity s) x y dx dy) (\<lambda>v.
            if v > 0 then stop_dirs rec s x y ds
            else sbind (rec s nx ny False) (\<lambda>s'. stop_dirs rec s' x y ds)))))"

primrec propagate_stop ::
  "nat \<Rightarrow> ('a::linordered_field) simulator \<Rightarrow> int \<Rightarrow> int \<Rightarrow> bool \<Rightarrow> error + 'a simulator" where
  "propagate_stop 0 = (\<lambda>s x y force. Inl Exhausted)"
| "propagate_stop (Suc n) = (\<lambda>s x y force.
     sbind (if \<not> force then stop_check s x y deltas else Inr True) (\<lambda>stop.
       if \<not> stop then Inr s
       else
         sbind (put2 (last_use s) x y (int (UT s))) (\<lambda>lu.
           stop_dirs (propagate_stop n) (s\<lparr>last_use := lu\<rparr>) x y deltas)))"

text \<open>\<^verbatim>\<open>move_prob\<close> (simulator.h:366-384) reads the four neighbours without a test.\<close>

definition move_prob :: "('a::linordered_field) simulator \<Rightarrow> int \<Rightarrow> int \<Rightarrow> error + 'a" where
  "move_prob s x y =
     forM deltas (\<lambda>(dx, dy) sm.
       let nx = x + dx; ny = y + dy in
       sbind (char_at (field_data s) nx ny) (\<lambda>c.
       if c = CHR ''#'' then Inr sm
       else
         sbind (at2 (last_use s) nx ny) (\<lambda>l.
         if l = int (UT s) then Inr sm
         else
           sbind (velocity_get (velocity s) x y dx dy) (\<lambda>v.
           if v \<ge> 0 then Inr (sm + v) else Inr sm)))) 0"

text \<open>
  \<^verbatim>\<open>propagate_move\<close> (simulator.h:82-161). \<open>move_thresholds\<close> fills
  \<^verbatim>\<open>thresholds\<close>, \<open>pick_dir\<close> is the search of the first threshold above \<open>r\<close>,
  \<open>move_loop\<close> is the \<^verbatim>\<open>do ... while (!ret)\<close> loop, of at most \<open>k\<close> rounds, and
  \<open>move_stop_dir\<close> is the body of the loop that stops the neighbours.
\<close>

fun move_thresholds ::
  "('a::linordered_field) simulator \<Rightarrow> int \<Rightarrow> int \<Rightarrow> 'a \<Rightarrow> (int \<times> int) list \<Rightarrow> error + ('a list \<times> 'a)" where
  "move_thresholds s x y sm [] = Inr ([], sm)"
| "move_thresholds s x y sm ((dx, dy) # ds) =
     (let nx = x + dx; ny = y + dy;
          skip = sbind (move_thresholds s x y sm ds) (\<lambda>(ts, total). Inr (0 # ts, total)) in
      if \<not> in_grid s nx ny then skip
      else
        sbind (char_at (field_data s) nx ny) (\<lambda>c.
        if c = CHR ''#'' then skip
        else
          sbind (at2 (last_use s) nx ny) (\<lambda>l.
          if l = int (UT s) then skip
          else
            sbind (velocity_get (velocity s) x y dx dy) (\<lambda>v.
            if v < 0
            then sbind (move_thresholds s x y sm ds) (\<lambda>(ts, total). Inr (sm # ts, total))
            else sbind (move_thresholds s x y (sm + v) ds) (\<lambda>(ts, total).
                   Inr ((sm + v) # ts, total))))))"

definition pick_dir :: "('a::linorder) list \<Rightarrow> 'a \<Rightarrow> nat" where
  "pick_dir thresholds r =
     (let i = length (takeWhile (\<lambda>t. \<not> t > r) thresholds)
      in if i < length thresholds then i else 0)"

primrec move_loop ::
  "nat \<Rightarrow> ('a simulator \<Rightarrow> int \<Rightarrow> int \<Rightarrow> bool \<Rightarrow> int \<Rightarrow> error + ('a simulator \<times> bool))
     \<Rightarrow> ('a::linordered_field) simulator \<Rightarrow> int \<Rightarrow> int \<Rightarrow> int \<Rightarrow> int \<Rightarrow> int
     \<Rightarrow> error + ('a simulator \<times> bool \<times> int \<times> int)" where
  "move_loop 0 = (\<lambda>rec s x y depth target_x target_y. Inl Exhausted)"
| "move_loop (Suc k) = (\<lambda>rec s x y depth target_x target_y.
     sbind (move_thresholds s x y 0 deltas) (\<lambda>(thresholds, sm).
       if sm = 0 then Inr (s, False, target_x, target_y)
       else
         let (r01, s1) = random01 s;
             r = r01 * sm;
             dir = pick_dir thresholds r
         in
         sbind (at1 deltas (int dir)) (\<lambda>(dx, dy).
           let tx = x + dx; ty = y + dy in
           if \<not> in_grid s1 tx ty then move_loop k rec s1 x y depth tx ty
           else
             sbind (at2 (last_use s1) tx ty) (\<lambda>l.
               if l = int (UT s1) - 1 then Inr (s1, True, tx, ty)
               else
                 sbind (rec s1 tx ty False (depth + 1)) (\<lambda>(s2, ret).
                   if ret then Inr (s2, True, tx, ty)
                   else move_loop k rec s2 x y depth tx ty)))))"

definition move_stop_dir ::
  "('a simulator \<Rightarrow> int \<Rightarrow> int \<Rightarrow> bool \<Rightarrow> error + 'a simulator) \<Rightarrow> int \<Rightarrow> int \<Rightarrow> int \<times> int
     \<Rightarrow> ('a::linordered_field) simulator \<Rightarrow> error + 'a simulator" where
  "move_stop_dir rec x y = (\<lambda>(dx, dy) s.
     let nx = x + dx; ny = y + dy in
     if nx > - 1 \<and> ny > - 1 \<and> nx < int (rows s) \<and> ny < int (cols s)
     then
       sbind (char_at (field_data s) nx ny) (\<lambda>c.
       if c \<noteq> CHR ''#''
       then
         sbind (at2 (last_use s) nx ny) (\<lambda>l.
         if l < int (UT s) - 1
         then
           sbind (velocity_get (velocity s) x y dx dy) (\<lambda>v.
           if v < 0 then rec s nx ny False else Inr s)
         else Inr s)
       else Inr s)
     else Inr s)"

primrec propagate_move ::
  "nat \<Rightarrow> ('a::linordered_field) simulator \<Rightarrow> int \<Rightarrow> int \<Rightarrow> bool \<Rightarrow> int
     \<Rightarrow> error + ('a simulator \<times> bool)" where
  "propagate_move 0 = (\<lambda>s x y is_first depth. Inl Exhausted)"
| "propagate_move (Suc n) = (\<lambda>s x y is_first depth.
     sbind (put2 (last_use s) x y (int (UT s) - (if is_first then 1 else 0))) (\<lambda>lu.
       let s1 = s\<lparr>last_use := lu\<rparr> in
       if depth > 1000 then Inr (s1, False)
       else
         sbind (move_loop n (propagate_move n) s1 x y depth (- 1) (- 1))
           (\<lambda>(s2, ret, target_x, target_y).
         sbind (put2 (last_use s2) x y (int (UT s2))) (\<lambda>lu2.
         sbind (forM deltas (move_stop_dir (propagate_stop n) x y) (s2\<lparr>last_use := lu2\<rparr>))
           (\<lambda>s3.
             if ret \<and> \<not> is_first
             then sbind (swap_particles s3 x y target_x target_y) (\<lambda>s4. Inr (s4, ret))
             else Inr (s3, ret))))))"


text \<open>
  Phase C (simulator.h:457-501): the sweeps of \<^verbatim>\<open>propagate_flow\<close> (\<open>flow_sweep\<close> is
  one pass over the cells, \<open>flow_cell\<close> its body), repeated while one of them moved
  something, then the new velocities and pressures. The local
  \<^verbatim>\<open>total_delta_p\<close> is never read and is left out.
\<close>

definition flow_cell ::
  "nat \<Rightarrow> int \<times> int \<Rightarrow> ('a::linordered_field) simulator \<times> bool \<Rightarrow> error + ('a simulator \<times> bool)" where
  "flow_cell n = (\<lambda>(x, y) (s, prop).
     sbind (char_at (field_data s) x y) (\<lambda>c.
     if c \<noteq> CHR ''#''
     then
       sbind (at2 (last_use s) x y) (\<lambda>l.
       if l \<noteq> int (UT s)
       then sbind (propagate_flow n s x y 1) (\<lambda>(s', t, local_prop, endp).
              Inr (s', if t > 0 then True else prop))
       else Inr (s, prop))
     else Inr (s, prop)))"

definition flow_sweep ::
  "nat \<Rightarrow> ('a::linordered_field) simulator \<Rightarrow> error + ('a simulator \<times> bool)" where
  "flow_sweep n s0 = forM (cells s0) (flow_cell n) (s0\<lparr>UT := UT s0 + 2\<rparr>, False)"

primrec run_flow :: "nat \<Rightarrow> ('a::linordered_field) simulator \<Rightarrow> error + 'a simulator" where
  "run_flow 0 = (\<lambda>s0. Inl Exhausted)"
| "run_flow (Suc n) = (\<lambda>s0.
     sbind (flow_sweep n s0) (\<lambda>(s', prop). if prop then run_flow n s' else Inr s'))"

definition recalc_dir ::
  "int list list \<Rightarrow> int \<Rightarrow> int \<Rightarrow> int \<times> int \<Rightarrow> ('a::linordered_field) simulator
     \<Rightarrow> error + 'a simulator" where
  "recalc_dir dirs x y = (\<lambda>(dx, dy) s.
     let nx = x + dx; ny = y + dy in
     if \<not> in_grid s nx ny then Inr s
     else
       sbind (velocity_get (velocity s) x y dx dy) (\<lambda>old_v.
       sbind (velocity_get (velocity_flow s) x y dx dy) (\<lambda>new_v.
       if \<not> old_v > 0 then Inr s
       else if \<not> new_v \<le> old_v then Inl AssertionFailed
       else
         sbind (velocity_set (velocity s) x y dx dy new_v) (\<lambda>v'.
         sbind (char_at (field_data s) x y) (\<lambda>c.
         sbind (rho_at s c) (\<lambda>rc.
         let force = (old_v - new_v) * rc;
             force = (if c = CHR ''.'' then force * (8 / 10) else force)
         in
         sbind (char_at (field_data s) nx ny) (\<lambda>cn.
         if cn = CHR ''#''
         then
           sbind (at2 dirs x y) (\<lambda>d.
           sbind (at2 (p s) x y) (\<lambda>pxy.
           sbind (put2 (p s) x y (pxy + force / of_int d)) (\<lambda>p'.
             Inr (s\<lparr>velocity := v', p := p'\<rparr>))))
         else
           sbind (at2 dirs nx ny) (\<lambda>d.
           sbind (at2 (p s) nx ny) (\<lambda>pn.
           sbind (put2 (p s) nx ny (pn + force / of_int d)) (\<lambda>p'.
             Inr (s\<lparr>velocity := v', p := p'\<rparr>)))))))))))"

definition run_recalc ::
  "int list list \<Rightarrow> ('a::linordered_field) simulator \<Rightarrow> error + 'a simulator" where
  "run_recalc dirs s0 =
     forM (cells s0) (\<lambda>(x, y) s.
       sbind (char_at (field_data s) x y) (\<lambda>c.
         if c = CHR ''#'' then Inr s
         else forM deltas (recalc_dir dirs x y) s)) s0"

text \<open>Phase D (simulator.h:503-519).\<close>

definition run_move ::
  "nat \<Rightarrow> ('a::linordered_field) simulator \<Rightarrow> error + ('a simulator \<times> bool)" where
  "run_move fuel s0 =
     forM (cells s0) (\<lambda>(x, y) (s, prop).
       sbind (char_at (field_data s) x y) (\<lambda>c.
       if c \<noteq> CHR ''#''
       then
         sbind (at2 (last_use s) x y) (\<lambda>l.
         if l \<noteq> int (UT s)
         then
           let (pr, s1) = random01 s in
           sbind (move_prob s1 x y) (\<lambda>pr1.
           if pr < pr1
           then sbind (propagate_move fuel s1 x y True 0) (\<lambda>(s2, ret). Inr (s2, True))
           else sbind (propagate_stop fuel s1 x y True) (\<lambda>s2. Inr (s2, prop)))
         else Inr (s, prop))
       else Inr (s, prop)))
     (s0\<lparr>UT := UT s0 + 2\<rparr>, False)"

text \<open>
  One round of the loop of \<^verbatim>\<open>run\<close>, and the loop: when something moved, the printing
  of the grid increments \<^verbatim>\<open>step\<close> once more.
\<close>

definition run_step ::
  "nat \<Rightarrow> int list list \<Rightarrow> ('a::linordered_field) simulator \<Rightarrow> error + ('a simulator \<times> bool)" where
  "run_step fuel dirs s =
     sbind (run_gravity s) (\<lambda>s1.
     sbind (run_pressure dirs s1) (\<lambda>s2.
     sbind (run_flow fuel (s2\<lparr>velocity_flow := VectorField_init (rows s2) (cols s2)\<rparr>)) (\<lambda>s3.
     sbind (run_recalc dirs s3) (\<lambda>s4.
     run_move fuel s4))))"

function run_loop ::
  "nat \<Rightarrow> int list list \<Rightarrow> nat \<Rightarrow> nat \<Rightarrow> ('a::linordered_field) simulator \<Rightarrow> error + 'a simulator" where
  "run_loop fuel dirs steps step s =
     (if step < steps
      then sbind (run_step fuel dirs s) (\<lambda>(s', prop).
             run_loop fuel dirs steps (if prop then step + 2 else step + 1) s')
      else Inr s)"
  by pat_completeness auto
termination
  by (relation "measure (\<lambda>(fuel, dirs, steps, step, s). steps - step)") auto

definition run :: "nat \<Rightarrow> ('a::linordered_field) simulator \<Rightarrow> nat \<Rightarrow> error + 'a simulator" where
  "run fuel s steps = sbind (count_dirs s) (\<lambda>dirs. run_loop fuel dirs steps 0 s)"

subsection \<open>Predicates of the statements\<close>

text \<open>
  \<open>grid_shape a r c\<close>: the two-dimensional container \<open>a\<close> has \<open>r\<close> rows of \<open>c\<close>
  entries. \<open>single_cell_grid s x0 y0\<close>: the character field and the stamps of \<open>s\<close>
  have the extents of \<open>s\<close>, and \<open>(x0, y0)\<close> is the one cell that is not a wall.
\<close>

definition grid_shape :: "'b list list \<Rightarrow> nat \<Rightarrow> nat \<Rightarrow> bool" where
  "grid_shape a r c \<longleftrightarrow> length a = r \<and> (\<forall>row \<in> set a. length row = c)"

definition single_cell_grid :: "'a simulator \<Rightarrow> nat \<Rightarrow> nat \<Rightarrow> bool" where
  "single_cell_grid s x0 y0 \<longleftrightarrow>
     grid_shape (field_data s) (rows s) (cols s) \<and> grid_shape (last_use s) (rows s) (cols s) \<and>
     x0 < rows s \<and> y0 < cols s \<and>
     (\<forall>x < rows s. \<forall>y < cols s. field_data s ! x ! y \<noteq> CHR ''#'' \<longleftrightarrow> x = x0 \<and> y = y0)"

text \<open>
  \<open>stamped s x y\<close>: the state after a call of \<^verbatim>\<open>propagate_flow\<close> that only marked its
  cell as processed.
\<close>

definition stamped :: "'a simulator \<Rightarrow> nat \<Rightarrow> nat \<Rightarrow> 'a simulator" where
  "stamped s x y =
     s\<lparr>last_use := (last_use s)[x := (last_use s ! x)[y := int (UT s)]],
       flow_calls := flow_calls s + 1\<rparr>"

text \<open>
  \<open>flow_wf s\<close>: the four fields that \<^verbatim>\<open>propagate_flow\<close> touches have the extents of
  \<open>s\<close>, with four values in each cell of the two directional fields. \<open>unclaimed s\<close> are
  the cells whose stamp is below \<open>UT - 1\<close>: not entered in the current sweep.
\<close>

definition cells4 :: "'b list list list \<Rightarrow> bool" where
  "cells4 v \<longleftrightarrow> (\<forall>row \<in> set v. \<forall>cell \<in> set row. length cell = 4)"

definition flow_wf :: "'a simulator \<Rightarrow> bool" where
  "flow_wf s \<longleftrightarrow>
     grid_shape (field_data s) (rows s) (cols s) \<and> grid_shape (last_use s) (rows s) (cols s) \<and>
     grid_shape (velocity s) (rows s) (cols s) \<and> cells4 (velocity s) \<and>
     grid_shape (velocity_flow s) (rows s) (cols s) \<and> cells4 (velocity_flow s)"

definition unclaimed :: "'a simulator \<Rightarrow> (nat \<times> nat) set" where
  "unclaimed s = {(x, y). x < rows s \<and> y < cols s \<and> last_use s ! x ! y < int (UT s) - 1}"

text \<open>
  What a call of \<^verbatim>\<open>propagate_flow\<close> may change. \<open>same_frame\<close>: the extents, the tick
  counter, the characters and the velocities stay. \<open>stamps_advance E\<close>: outside \<open>E\<close>, a
  stamp stays or goes from unclaimed to \<open>UT\<close>. \<open>work_bounded\<close>: each counted entry has
  used up an unclaimed cell. \<open>flow_ok rec n\<close> is the contract of a call on an unclaimed
  cell that is not a wall, with at most \<open>n\<close> cells unclaimed; \<open>settled\<close> holds between
  the calls of a sweep, when no cell is on the recursion stack.
\<close>

definition same_frame :: "'a simulator \<Rightarrow> 'a simulator \<Rightarrow> bool" where
  "same_frame s s' \<longleftrightarrow>
     flow_wf s' \<and> rows s' = rows s \<and> cols s' = cols s \<and> UT s' = UT s \<and>
     field_data s' = field_data s \<and> velocity s' = velocity s"

definition stamps_advance :: "(nat \<times> nat) set \<Rightarrow> 'a simulator \<Rightarrow> 'a simulator \<Rightarrow> bool" where
  "stamps_advance E s s' \<longleftrightarrow>
     (\<forall>x < rows s. \<forall>y < cols s. (x, y) \<notin> E \<longrightarrow>
        last_use s' ! x ! y = last_use s ! x ! y \<or>
        (last_use s ! x ! y < int (UT s) - 1 \<and> last_use s' ! x ! y = int (UT s)))"

definition work_bounded :: "'a simulator \<Rightarrow> 'a simulator \<Rightarrow> bool" where
  "work_bounded s s' \<longleftrightarrow>
     flow_calls s' + card (unclaimed s') \<le> flow_calls s + card (unclaimed s)"

definition flow_advance :: "(nat \<times> nat) set \<Rightarrow> 'a simulator \<Rightarrow> 'a simulator \<Rightarrow> bool" where
  "flow_advance E s s' \<longleftrightarrow> same_frame s s' \<and> stamps_advance E s s' \<and> work_bounded s s'"

definition flow_ok ::
  "('a simulator \<Rightarrow> int \<Rightarrow> int \<Rightarrow> 'a \<Rightarrow> error + ('a simulator \<times> 'a \<times> bool \<times> (int \<times> int)))
     \<Rightarrow> nat \<Rightarrow> bool" where
  "flow_ok rec n \<longleftrightarrow>
     (\<forall>s x y lm. flow_wf s \<longrightarrow> x < rows s \<longrightarrow> y < cols s \<longrightarrow>
        field_data s ! x ! y \<noteq> CHR ''#'' \<longrightarrow> (x, y) \<in> unclaimed s \<longrightarrow> card (unclaimed s) \<le> n \<longrightarrow>
        (\<exists>s' t pr e. rec s (int x) (int y) lm = Inr (s', t, pr, e) \<and>
           flow_advance {} s s' \<and> last_use s' ! x ! y = int (UT s)))"

definition settled :: "'a simulator \<Rightarrow> bool" where
  "settled s \<longleftrightarrow>
     (\<forall>x < rows s. \<forall>y < cols s.
        last_use s ! x ! y < int (UT s) - 1 \<or> last_use s ! x ! y = int (UT s))"

text \<open>
  \<open>wall s x y\<close>: the cell \<open>(x, y)\<close> holds the character \<^verbatim>\<open>#\<close>. \<open>unit_draws s\<close>: every
  draw of \<^verbatim>\<open>random01\<close> lies in \<open>[0, 1)\<close>, the range of
  \<^verbatim>\<open>std::uniform_real_distribution(0.0, 1.0)\<close>. \<open>cell_kept s s' x y\<close>: the pressure, the
  two velocity arrays and the stamp of the cell are the same in \<open>s\<close> and \<open>s'\<close>.
  \<open>walls_kept s s'\<close>: the extents and the walls of \<open>s'\<close> are those of \<open>s\<close>, and every
  wall inside the grid is kept.
\<close>

definition wall :: "'a simulator \<Rightarrow> int \<Rightarrow> int \<Rightarrow> bool" where
  "wall s x y \<longleftrightarrow> char_at (field_data s) x y = Inr CHR ''#''"












text \<open>
  \<open>flow_clear s\<close>: \<^verbatim>\<open>velocity_flow\<close> is zero at the walls, as the constructor leaves it.
  Phase C assigns \<^verbatim>\<open>velocity_flow = {}\<close> and calls \<^verbatim>\<open>init(rows, cols)\<close>, which
  zeroes every cell.
\<close>

definition flow_clear :: "('a::zero) simulator \<Rightarrow> bool" where
  "flow_clear s \<longleftrightarrow>
     (\<forall>x y. wall s x y \<longrightarrow> in_grid s x y \<longrightarrow> velocity_flow s ! nat x ! nat y = replicate 4 0)"

subsection \<open>Example states and inputs\<close>

text \<open>
  \<open>two_cells\<close>: the row \<^verbatim>\<open>ab\<close>, with pressures 1 and 2, a velocity of 1 from \<open>a\<close>
  toward \<open>b\<close> and of 2 from \<open>b\<close> toward \<open>a\<close>. \<open>one_cell\<close> is what the constructor
  builds from the description \<^verbatim>\<open>1 1 / 0.1 / .\<close>, and \<open>top_cell\<close> from
  \<^verbatim>\<open>2 1 / 0.1 / . / #\<close>. \<open>header_of\<close> reads three headers.
\<close>

definition two_cells :: "rat simulator" where
  "two_cells = \<lparr>field_data = [''ab''], p = [[1, 2]], old_p = [[0, 0]],
     velocity = [[[0, 0, 0, 1], [0, 0, 2, 0]]], velocity_flow = [[[0, 0, 0, 0], [0, 0, 0, 0]]],
     last_use = [[0, 0]], rnd = (\<lambda>n. 0), rows = 1, cols = 2, UT = 2,
     rho = replicate 256 (1 / 100), g = 0,
     field = [], static_p = [], static_old_p = [], static_velocity = [], static_velocity_flow = [],
     static_last_use = [], use_static = False, flow_calls = 0\<rparr>"

definition one_cell :: "rat simulator" where
  "one_cell = \<lparr>field_data = [''.''], p = [[0]], old_p = [[0]],
     velocity = [[[0, 0, 0, 0]]], velocity_flow = [[[0, 0, 0, 0]]],
     last_use = [[0]], rnd = (\<lambda>n. 0), rows = 1, cols = 1, UT = 0,
     rho = replicate 256 (1 / 100), g = 1 / 10,
     field = [], static_p = [], static_old_p = [], static_velocity = [], static_velocity_flow = [],
     static_last_use = [], use_static = False, flow_calls = 0\<rparr>"

definition top_cell :: "rat simulator" where
  "top_cell = \<lparr>field_data = [''.'', ''#''], p = [[0], [0]], old_p = [[0], [0]],
     velocity = [[[0, 0, 0, 0]], [[0, 0, 0, 0]]], velocity_flow = [[[0, 0, 0, 0]], [[0, 0, 0, 0]]],
     last_use = [[0], [0]], rnd = (\<lambda>n. 0), rows = 2, cols = 1, UT = 0,
     rho = replicate 256 (1 / 100), g = 1 / 10,
     field = [], static_p = [], static_old_p = [], static_velocity = [], static_velocity_flow = [],
     static_last_use = [], use_static = False, flow_calls = 0\<rparr>"


text \<open>\<open>center_cell\<close>: a fluid cell enclosed by walls, as built from \<^verbatim>\<open>3 3 / 0.1 / ### / #.# / ###\<close>.\<close>

definition center_cell :: "rat simulator" where
  "center_cell = \<lparr>field_data = [''###'', ''#.#'', ''###''],
     p = replicate 3 (replicate 3 0), old_p = replicate 3 (replicate 3 0),
     velocity = VectorField_init 3 3, velocity_flow = VectorField_init 3 3,
     last_use = replicate 3 (replicate 3 0), rnd = (\<lambda>n. 1 / 2), rows = 3, cols = 3, UT = 0,
     rho = replicate 256 (1 / 100), g = 1 / 10,
     field = [], static_p = [], static_old_p = [], static_velocity = [], static_velocity_flow = [],
     static_last_use = [], use_static = False, flow_calls = 0\<rparr>"

text \<open>
  \<open>ring_flow\<close>: four fluid cells in a square, with a velocity of 1/2 around the square:
  \<open>a\<close> to the east, \<open>b\<close> to the south, \<open>d\<close> to the west, \<open>c\<close> to the north.
\<close>

definition ring_flow :: "rat simulator" where
  "ring_flow = \<lparr>field_data = [''####'', ''#ab#'', ''#cd#'', ''####''],
     p = replicate 4 (replicate 4 0), old_p = replicate 4 (replicate 4 0),
     velocity = [replicate 4 [0, 0, 0, 0],
                 [[0, 0, 0, 0], [0, 0, 0, 1 / 2], [0, 1 / 2, 0, 0], [0, 0, 0, 0]],
                 [[0, 0, 0, 0], [1 / 2, 0, 0, 0], [0, 0, 1 / 2, 0], [0, 0, 0, 0]],
                 replicate 4 [0, 0, 0, 0]],
     velocity_flow = VectorField_init 4 4,
     last_use = replicate 4 (replicate 4 0), rnd = (\<lambda>n. 1 / 2), rows = 4, cols = 4, UT = 0,
     rho = replicate 256 (1 / 100), g = 1 / 10,
     field = [], static_p = [], static_old_p = [], static_velocity = [], static_velocity_flow = [],
     static_last_use = [], use_static = False, flow_calls = 0\<rparr>"


section \<open>Properties\<close>

subsection \<open>Sequencing\<close>

lemma sbind_simps [simp]: "sbind (Inl e) f = Inl e" "sbind (Inr r) f = f r"
  by (simp_all add: sbind_def)

lemma sbind_Inr_iff: "sbind m f = Inr r \<longleftrightarrow> (\<exists>t. m = Inr t \<and> f t = Inr r)"
  by (cases m) simp_all

lemma Inl_from_map_sum: "map_sum id (\<lambda>_. ()) m = Inl e \<Longrightarrow> m = Inl e"
  by (cases m) simp_all

subsection \<open>Fixed-point multiplication and division\<close>

lemma sint_fixed_mul_floor:
  "sint (raw_v (fixed_mul K a b)) = \<lfloor>real_of_int (sint (raw_v a * raw_v b)) / 2 ^ K\<rfloor>"
proof -
  have "\<lfloor>real_of_int (sint (raw_v a * raw_v b)) / real_of_int (2 ^ K)\<rfloor>
        = sint (raw_v a * raw_v b) div 2 ^ K"
    by (rule floor_divide_of_int_eq)
  then show ?thesis
    by (simp add: fixed_mul_def from_raw_def sint_signed_drop_bit_eq drop_bit_eq_div)
qed

lemma toward_zero_sdiv:
  fixes x y :: int
  assumes "y \<noteq> 0"
  shows "toward_zero (real_of_int x / real_of_int y) = x sdiv y"
proof -
  have fl: "\<And>p q :: int. \<lfloor>real_of_int p / real_of_int q\<rfloor> = p div q"
    by (rule floor_divide_of_int_eq)
  have ce: "\<lceil>real_of_int p / real_of_int q\<rceil> = - ((- p) div q)" for p q :: int
    using fl[of "- p" q] by (simp add: ceiling_def)
  consider "0 \<le> x" "0 < y" | "x < 0" "0 < y" | "0 \<le> x" "y < 0" | "x < 0" "y < 0"
    using assms by linarith
  then show ?thesis
  proof cases
    case 1
    then show ?thesis
      by (simp add: toward_zero_def fl signed_divide_int_def sgn_if)
  next
    case 2
    then have "real_of_int x / real_of_int y < 0" by (simp add: divide_neg_pos)
    with 2 show ?thesis
      by (simp add: toward_zero_def ce signed_divide_int_def sgn_if)
  next
    case 3
    show ?thesis
    proof (cases "x = 0")
      case True
      then show ?thesis by (simp add: toward_zero_def)
    next
      case False
      with 3 have "real_of_int x / real_of_int y < 0" by (simp add: divide_pos_neg)
      moreover have "(- x) div y = x div (- y)"
        by (metis div_minus_minus minus_minus)
      ultimately show ?thesis using 3 False
        by (simp add: toward_zero_def ce signed_divide_int_def sgn_if)
    qed
  next
    case 4
    then have "0 \<le> real_of_int x / real_of_int y" by (simp add: divide_nonpos_neg)
    moreover have "x div y = (- x) div (- y)" by simp
    ultimately show ?thesis using 4
      by (simp add: toward_zero_def fl signed_divide_int_def sgn_if del: div_minus_minus)
  qed
qed

lemma sdiv_in_int64:
  fixes x y :: "64 word"
  assumes "y \<noteq> 0" "\<not> (x = - (2 ^ 63) \<and> y = - 1)"
  shows "- (2 ^ 63) \<le> sint x sdiv sint y \<and> sint x sdiv sint y < 2 ^ 63"
proof -
  have rx: "- (2 ^ 63) \<le> sint x" "sint x < 2 ^ 63"
    using sint_ge[of x] sint_lt[of x] by simp_all
  have r: "- \<bar>sint x\<bar> \<le> sint x sdiv sint y" "sint x sdiv sint y \<le> \<bar>sint x\<bar>"
    using sdiv_int_range[of "sint x" "sint y"] by simp_all
  have lo: "- (2 ^ 63) \<le> sint x sdiv sint y" using rx r by linarith
  have hi: "sint x sdiv sint y < 2 ^ 63"
  proof (cases "sint x = - (2 ^ 63)")
    case False
    then show ?thesis using rx r by linarith
  next
    case True
    then have "sint x = sint (- (2 ^ 63) :: 64 word)" by simp
    then have xm: "x = - (2 ^ 63)" by (rule signed_word_eqI)
    with assms have y1: "y \<noteq> - 1" by simp
    have "sint y \<noteq> - 1"
    proof
      assume "sint y = - 1"
      then have "sint y = sint (- 1 :: 64 word)" by simp
      then have "y = - 1" by (rule signed_word_eqI)
      with y1 show False by simp
    qed
    moreover have "sint y \<noteq> 0" using assms(1) word_eq_iff_signed [of y 0] by simp
    ultimately consider "0 < sint y" | "sint y < - 1" by linarith
    then show ?thesis
    proof cases
      case 1
      then have "0 \<le> (9223372036854775808::int) div sint y"
        by (simp add: pos_imp_zdiv_nonneg_iff)
      with 1 show ?thesis using True
        by (simp add: signed_divide_int_def sgn_if)
    next
      case 2
      then have "2 \<le> \<bar>sint y\<bar>" by simp
      then have "\<bar>sint x\<bar> div \<bar>sint y\<bar> \<le> \<bar>sint x\<bar> div 2"
        by (intro zdiv_mono2) simp_all
      then show ?thesis using True 2
        by (simp add: signed_divide_int_def sgn_if)
    qed
  qed
  from lo hi show ?thesis ..
qed

lemma sint_int64_div:
  assumes "int64_div x y = Some q"
  shows "sint q = sint x sdiv sint y"
proof -
  from assms have c: "y \<noteq> 0" "\<not> (x = - (2 ^ 63) \<and> y = - 1)"
    and q: "q = word_of_int (sint x sdiv sint y)"
    by (auto simp: int64_div_def split: if_splits)
  from sdiv_in_int64[OF c] show ?thesis
    unfolding q by (simp add: sint_sbintrunc' signed_take_bit_int_eq_self)
qed

text \<open>
  Claim C5, as the code has it. The product of \<open>a\<close> and \<open>b\<close> has the raw value
  \<open>(a.v * b.v) >> K\<close>, and this arithmetic shift rounds the exact quotient by \<open>2 ^ K\<close>
  down, toward minus infinity, not toward zero. The quotient is undefined exactly when
  \<open>b.v\<close> is zero or the division overflows; where it is defined its raw value is
  \<open>(a.v << K) / b.v\<close> with the truncating division, which rounds the exact quotient
  toward zero, for every sign of the operands.
\<close>

theorem fixed_mul_div_rounding:
  "raw_v (fixed_mul K a b) = signed_drop_bit K (raw_v a * raw_v b) \<and>
   sint (raw_v (fixed_mul K a b)) = \<lfloor>real_of_int (sint (raw_v a * raw_v b)) / 2 ^ K\<rfloor> \<and>
   (fixed_div K a b = None \<longleftrightarrow>
      raw_v b = 0 \<or> (push_bit K (raw_v a) = - (2 ^ 63) \<and> raw_v b = - 1)) \<and>
   (\<forall>q. fixed_div K a b = Some q \<longrightarrow>
      sint (raw_v q) = sint (push_bit K (raw_v a)) sdiv sint (raw_v b) \<and>
      sint (raw_v q) =
        toward_zero (real_of_int (sint (push_bit K (raw_v a))) / real_of_int (sint (raw_v b))))"
proof (intro conjI allI impI)
  show "raw_v (fixed_mul K a b) = signed_drop_bit K (raw_v a * raw_v b)"
    by (simp add: fixed_mul_def from_raw_def)
  show "sint (raw_v (fixed_mul K a b)) = \<lfloor>real_of_int (sint (raw_v a * raw_v b)) / 2 ^ K\<rfloor>"
    by (rule sint_fixed_mul_floor)
  show "fixed_div K a b = None \<longleftrightarrow>
      raw_v b = 0 \<or> (push_bit K (raw_v a) = - (2 ^ 63) \<and> raw_v b = - 1)"
    by (simp add: fixed_div_def int64_div_def)
next
  fix q assume q: "fixed_div K a b = Some q"
  then obtain w where w: "int64_div (push_bit K (raw_v a)) (raw_v b) = Some w" "q = from_raw w"
    by (auto simp: fixed_div_def)
  then have s: "sint (raw_v q) = sint (push_bit K (raw_v a)) sdiv sint (raw_v b)"
    by (simp add: from_raw_def sint_int64_div)
  show "sint (raw_v q) = sint (push_bit K (raw_v a)) sdiv sint (raw_v b)" by (rule s)
  from w have "raw_v b \<noteq> 0" by (auto simp: int64_div_def split: if_splits)
  then have "sint (raw_v b) \<noteq> 0" using word_eq_iff_signed [of "raw_v b" 0] by simp
  then have "toward_zero (real_of_int (sint (push_bit K (raw_v a))) / real_of_int (sint (raw_v b)))
      = sint (push_bit K (raw_v a)) sdiv sint (raw_v b)"
    by (rule toward_zero_sdiv)
  with s show "sint (raw_v q) =
        toward_zero (real_of_int (sint (push_bit K (raw_v a))) / real_of_int (sint (raw_v b)))"
    by (simp only:)
qed

theorem fixed_mul_div_rounding_witness:
  "fixed_div 16 (from_raw (- 65536)) (from_raw 196608) = Some (from_raw (- 21845)) \<and>
   toward_zero (real_of_int (sint (push_bit 16 (raw_v (from_raw (- 65536)))))
                  / real_of_int (sint (raw_v (from_raw 196608)))) = - 21845"
proof -
  have e: "fixed_div 16 (from_raw (- 65536)) (from_raw 196608) = Some (from_raw (- 21845))"
    by (simp add: fixed_div_def int64_div_def from_raw_def signed_divide_int_def)
  have "sint (raw_v (from_raw (- 21845))) = - 21845"
    by (simp add: from_raw_def)
  with e fixed_mul_div_rounding [of 16 "from_raw (- 65536)" "from_raw 196608"]
  show ?thesis by simp
qed

text \<open>
  Claim C5 as it is written fails for a negative product: \<open>-0.5\<close> (raw \<open>-32768\<close>) times
  \<open>2 ^ -16\<close> (raw \<open>1\<close>) with \<open>K = 16\<close> is raw \<open>-1\<close>, while rounding the exact
  quotient \<open>-32768 / 65536\<close> toward zero gives \<open>0\<close>.
\<close>

theorem fixed_mul_toward_zero_counterexample:
  "sint (raw_v (fixed_mul 16 (from_raw (- 32768)) (from_raw 1))) \<noteq>
   toward_zero (real_of_int (sint (raw_v (from_raw (- 32768)) * raw_v (from_raw 1))) / 2 ^ 16)"
proof -
  have "sint (raw_v (fixed_mul 16 (from_raw (- 32768)) (from_raw 1))) = - 1"
    by (simp add: fixed_mul_def from_raw_def sint_signed_drop_bit_eq drop_bit_eq_div)
  moreover
  have "toward_zero (real_of_int (sint (raw_v (from_raw (- 32768)) * raw_v (from_raw 1))) / 2 ^ 16) = 0"
    by (simp add: from_raw_def toward_zero_def ceiling_minus)
  ultimately show ?thesis by simp
qed

subsection \<open>Deltas outside the offset table\<close>

lemma find_pos_le: "find_pos ds d \<le> length ds"
  by (induction ds) auto

lemma find_pos_length_iff: "find_pos ds d = length ds \<longleftrightarrow> d \<notin> set ds"
  by (induction ds) auto

lemma find_pos_nth: "d \<in> set ds \<Longrightarrow> ds ! find_pos ds d = d"
  by (induction ds) auto

text \<open>
  \<^verbatim>\<open>add\<close> does what claim C4 says: at a valid position it fails with \<open>InvalidDelta\<close>
  exactly for the deltas outside the table, and a delta of the table resolves to its
  index there.
\<close>

lemma VectorField_add_InvalidDelta_iff:
  assumes "is_valid_position v x y"
  shows "VectorField_add v x y dx dy dv ds = Inl InvalidDelta \<longleftrightarrow> (dx, dy) \<notin> set ds"
  using assms
  by (auto simp: VectorField_add_def Let_def find_pos_length_iff at3_def put3_def
           split: sum.splits if_splits)

lemma VectorField_add_member:
  assumes "x < length v" "y < length (v ! x)" "length (v ! x ! y) = length ds"
    and "is_valid_position v x y" "(dx, dy) \<in> set ds"
  shows "\<exists>i < length ds. ds ! i = (dx, dy) \<and>
           VectorField_add v x y dx dy dv ds =
             Inr (v[x := (v ! x)[y := (v ! x ! y)[i := v ! x ! y ! i + dv]]], v ! x ! y ! i + dv)"
proof -
  let ?i = "find_pos ds (dx, dy)"
  from assms(5) have "?i \<noteq> length ds" by (simp add: find_pos_length_iff)
  with find_pos_le [of ds "(dx, dy)"] have lt: "?i < length ds" by simp
  moreover have "ds ! ?i = (dx, dy)" using assms(5) by (rule find_pos_nth)
  moreover have "VectorField_add v x y dx dy dv ds =
      Inr (v[x := (v ! x)[y := (v ! x ! y)[?i := v ! x ! y ! ?i + dv]]], v ! x ! y ! ?i + dv)"
    using assms lt by (simp add: VectorField_add_def Let_def at3_def put3_def)
  ultimately show ?thesis by blast
qed

text \<open>
  Claim C4 fails for \<^verbatim>\<open>get\<close>: it never fails with \<open>InvalidDelta\<close>. With the delta
  \<open>(2, 0)\<close>, which is not in the table, on a field of one cell it reads index 4 of the
  cell's four values.
\<close>

theorem VectorField_get_outside_table:
  "(2, 0) \<notin> set deltas \<and>
   VectorField_get (VectorField_init 1 1 :: int vector_field) 0 0 2 0 deltas = Inl OutOfBounds \<and>
   VectorField_add (VectorField_init 1 1 :: int vector_field) 0 0 2 0 1 deltas = Inl InvalidDelta"
  by (simp add: deltas_def VectorField_get_def VectorField_add_def VectorField_init_def at3_def
        is_valid_position_def VectorField_rows_def VectorField_cols_def)

lemma VectorField_get_never_InvalidDelta:
  "VectorField_get v x y dx dy ds \<noteq> Inl InvalidDelta"
  by (simp add: VectorField_get_def at3_def)

subsection \<open>What a checkpoint holds\<close>

text \<open>
  Claim C1 fails on \<^verbatim>\<open>save_state\<close>: the lines it writes are the extents, the gravity, the
  character field and the density overrides. They do not depend on the pressures, the
  previous pressures, the velocities, the stamps or the tick counter, so two states that
  differ in these are written as the same file, and no \<^verbatim>\<open>load_state\<close> can give
  both back.
\<close>

theorem save_state_omits_pressure_velocity_UT:
  "save_state show_size show_num
     (s\<lparr>p := P, old_p := Q, velocity := V, velocity_flow := W, last_use := L, UT := U\<rparr>)
   = save_state show_size show_num s"
  by (simp add: save_state_def)

lemma save_state_two_cells:
  "save_state show_size show_num two_cells =
     Inr [show_size 1 @ '' '' @ show_size 2, show_num 0, ''ab'']"
proof -
  have "filter (\<lambda>i. replicate 256 (1 / 100 :: rat) ! i \<noteq> 1 / 100) [0..<256] = []"
    by (auto simp: filter_empty_conv)
  then show ?thesis
    by (simp add: save_state_def two_cells_def upto_int_def at1_def)
qed

subsection \<open>The rotation of a move\<close>

lemma put2_same: "at2 a x y = Inr t \<Longrightarrow> put2 a x y t = Inr a"
  by (auto simp: at2_def put2_def split: if_splits)

lemma swap_with_velocity:
  assumes "swap_with pp s x y = Inr (pp', s')"
  shows "velocity s' = velocity s \<and> static_velocity s' = static_velocity s"
  using assms
  by (auto simp: swap_with_def sbind_Inr_iff put2_same split: if_splits)

text \<open>The three swaps together never change a velocity, in either storage mode.\<close>

lemma swap_particles_velocity:
  assumes "swap_particles s x y tx ty = Inr s'"
  shows "velocity s' = velocity s \<and> static_velocity s' = static_velocity s"
  using assms
  by (auto simp: swap_particles_def sbind_Inr_iff dest!: swap_with_velocity)

text \<open>
  Claim C2 fails: on \<open>two_cells\<close>, \<^verbatim>\<open>propagate_move(0, 0, true)\<close> chooses the cell to the
  right, whose recursive call chooses the first cell back and commits the move. After it
  the characters and the pressures of the two cells are exchanged, and every velocity
  is where it was: the cell that now holds \<open>b\<close> and the pressure 2 still has the velocity
  vector of \<open>a\<close>.
\<close>

theorem propagate_move_leaves_velocity:
  "map_sum id (\<lambda>(s', ret). (field_data s', p s', velocity s', ret))
     (propagate_move 3 two_cells 0 0 True 0)
   = Inr ([''ba''], [[2, 1]], [[[0, 0, 0, 1], [0, 0, 2, 0]]], True)"
  by code_simp

subsection \<open>Reads outside the grid\<close>

text \<open>
  Claim C3 fails on grids with a cell that is not a wall in the last row, or in the first
  row or column. On the grid of the single cell \<^verbatim>\<open>.\<close> the gravity phase reads row 1 of a
  field of one row; on the grid \<^verbatim>\<open>.\<close> over \<^verbatim>\<open>#\<close> the gravity phase passes and
  \<^verbatim>\<open>move_prob(0, 0)\<close> reads row \<open>-1\<close>. Both reads are outside \<^verbatim>\<open>field_data\<close>, and so
  is the first tick of \<^verbatim>\<open>run\<close> on either grid.
\<close>

theorem run_reads_outside_grid:
  "run_gravity one_cell = Inl OutOfBounds \<and> run 10 one_cell 1 = Inl OutOfBounds \<and>
   move_prob top_cell 0 0 = Inl OutOfBounds \<and> run 10 top_cell 1 = Inl OutOfBounds"
proof (intro conjI)
  have "map_sum id (\<lambda>_. ()) (run_gravity one_cell) = Inl OutOfBounds" by code_simp
  then show "run_gravity one_cell = Inl OutOfBounds" by (rule Inl_from_map_sum)
  have "map_sum id (\<lambda>_. ()) (run 10 one_cell 1) = Inl OutOfBounds" by code_simp
  then show "run 10 one_cell 1 = Inl OutOfBounds" by (rule Inl_from_map_sum)
  show "move_prob top_cell 0 0 = Inl OutOfBounds" by code_simp
  have "map_sum id (\<lambda>_. ()) (run 10 top_cell 1) = Inl OutOfBounds" by code_simp
  then show "run 10 top_cell 1 = Inl OutOfBounds" by (rule Inl_from_map_sum)
qed

subsection \<open>Construction and the extents\<close>





subsection \<open>Loops over the cells\<close>

lemma forM_skip: "(\<And>c. c \<in> set cs \<Longrightarrow> f c s = Inr s) \<Longrightarrow> forM cs f s = Inr s"
  by (induction cs) simp_all

lemma forM_one_Inr:
  assumes "distinct cs" "c0 \<in> set cs"
    and "\<And>c. c \<in> set cs \<Longrightarrow> c \<noteq> c0 \<Longrightarrow> f c s = Inr s"
    and "\<And>c. c \<in> set cs \<Longrightarrow> c \<noteq> c0 \<Longrightarrow> f c s1 = Inr s1"
    and "f c0 s = Inr s1"
  shows "forM cs f s = Inr s1"
  using assms
proof (induction cs)
  case Nil
  then show ?case by simp
next
  case (Cons c cs)
  show ?case
  proof (cases "c = c0")
    case True
    with Cons.prems have "\<And>c'. c' \<in> set cs \<Longrightarrow> f c' s1 = Inr s1" by auto
    then have "forM cs f s1 = Inr s1" by (rule forM_skip)
    with True Cons.prems(5) show ?thesis by simp
  next
    case False
    with Cons.prems have "f c s = Inr s" by simp
    moreover have "forM cs f s = Inr s1"
      using Cons.prems False by (intro Cons.IH) auto
    ultimately show ?thesis by simp
  qed
qed

lemma forM_one_Inl:
  assumes "c0 \<in> set cs"
    and "\<And>c. c \<in> set cs \<Longrightarrow> c \<noteq> c0 \<Longrightarrow> f c s = Inr s"
    and "f c0 s = Inl e"
  shows "forM cs f s = Inl e"
  using assms
proof (induction cs)
  case Nil
  then show ?case by simp
next
  case (Cons c cs)
  show ?case
  proof (cases "c = c0")
    case True
    with Cons.prems(3) show ?thesis by simp
  next
    case False
    with Cons.prems have "f c s = Inr s" by simp
    moreover have "forM cs f s = Inl e"
      using Cons.prems False by (intro Cons.IH) auto
    ultimately show ?thesis by simp
  qed
qed

lemma set_cells: "set (cells s) = {(int x, int y) | x y. x < rows s \<and> y < cols s}"
  by (auto simp: cells_def upto_int_def)

lemma distinct_cells: "distinct (cells s)"
  by (simp add: cells_def upto_int_def distinct_product distinct_map inj_on_def)

lemma char_at_grid:
  assumes "grid_shape f r c" "x < r" "y < c"
  shows "char_at f (int x) (int y) = Inr (f ! x ! y)"
  using assms by (simp add: char_at_def at1_def str_at_def grid_shape_def)

lemma char_at_row_out:
  assumes "grid_shape f r c"
  shows "char_at f (int r) y = Inl OutOfBounds"
  using assms by (simp add: char_at_def at1_def grid_shape_def)

lemma at2_grid:
  assumes "grid_shape a r c" "x < r" "y < c"
  shows "at2 a (int x) (int y) = Inr (a ! x ! y)"
  using assms by (simp add: at2_def grid_shape_def)

lemma put2_grid:
  assumes "grid_shape a r c" "x < r" "y < c"
  shows "put2 a (int x) (int y) t = Inr (a[x := (a ! x)[y := t]])"
  using assms by (simp add: put2_def grid_shape_def)

lemma grid_shape_update:
  assumes "grid_shape a r c"
  shows "grid_shape (a[x := (a ! x)[y := t]]) r c"
proof (cases "x < length a")
  case False
  then have "a[x := (a ! x)[y := t]] = a" by (simp add: list_update_beyond)
  with assms show ?thesis by simp
next
  case True
  then have "a ! x \<in> set a" by simp
  with assms have "length ((a ! x)[y := t]) = c" by (simp add: grid_shape_def)
  moreover have "set (a[x := (a ! x)[y := t]]) \<subseteq> insert ((a ! x)[y := t]) (set a)"
    by (rule set_update_subset_insert)
  ultimately show ?thesis using assms by (auto simp: grid_shape_def)
qed

subsection \<open>A grid with a single cell that is not a wall\<close>

lemma single_cell_gravity:
  fixes s :: "('a::linordered_field) simulator"
  assumes single: "single_cell_grid s x0 y0"
  shows "run_gravity s = (if x0 + 1 < rows s then Inr s else Inl OutOfBounds)"
proof -
  from single have fshape: "grid_shape (field_data s) (rows s) (cols s)"
    and x0: "x0 < rows s" and y0: "y0 < cols s"
    and walls: "\<And>x y. x < rows s \<Longrightarrow> y < cols s \<Longrightarrow>
       field_data s ! x ! y \<noteq> CHR ''#'' \<longleftrightarrow> x = x0 \<and> y = y0"
    by (simp_all add: single_cell_grid_def)
  let ?f = "\<lambda>(x, y) s.
       sbind (char_at (field_data s) x y) (\<lambda>c.
         if c = CHR ''#'' then Inr s
         else sbind (char_at (field_data s) (x + 1) y) (\<lambda>c'.
                if c' \<noteq> CHR ''#''
                then sbind (velocity_add (velocity s) x y 1 0 (g s)) (\<lambda>v'.
                       Inr (s\<lparr>velocity := v'\<rparr>))
                else Inr s))"
  have other: "?f c s = Inr s" if "c \<in> set (cells s)" "c \<noteq> (int x0, int y0)" for c
  proof -
    from that obtain x y where c: "c = (int x, int y)" "x < rows s" "y < cols s"
      by (auto simp: set_cells)
    with that(2) walls [of x y] have "field_data s ! x ! y = CHR ''#''" by auto
    with c fshape show ?thesis by (simp add: char_at_grid)
  qed
  have mem: "(int x0, int y0) \<in> set (cells s)" using x0 y0 by (auto simp: set_cells)
  have here: "field_data s ! x0 ! y0 \<noteq> CHR ''#''" using walls [OF x0 y0] by simp
  show ?thesis
  proof (cases "x0 + 1 < rows s")
    case True
    with walls [of "x0 + 1" y0] y0 have "field_data s ! (x0 + 1) ! y0 = CHR ''#''" by auto
    moreover have "char_at (field_data s) (int x0 + 1) (int y0) = Inr (field_data s ! (x0 + 1) ! y0)"
      using char_at_grid [OF fshape True y0] by (simp add: add.commute)
    ultimately have "?f (int x0, int y0) s = Inr s"
      using here fshape x0 y0 by (simp add: char_at_grid)
    with other have "\<And>c. c \<in> set (cells s) \<Longrightarrow> ?f c s = Inr s" by blast
    then have "forM (cells s) ?f s = Inr s" by (rule forM_skip)
    with True show ?thesis by (simp add: run_gravity_def)
  next
    case False
    with x0 have "int x0 + 1 = int (rows s)" by simp
    then have "char_at (field_data s) (int x0 + 1) (int y0) = Inl OutOfBounds"
      using char_at_row_out [OF fshape] by simp
    then have "?f (int x0, int y0) s = Inl OutOfBounds"
      using here fshape x0 y0 by (simp add: char_at_grid)
    with mem other have "forM (cells s) ?f s = Inl OutOfBounds"
      by (intro forM_one_Inl [where ?c0.0 = "(int x0, int y0)"]) auto
    with False show ?thesis by (simp add: run_gravity_def)
  qed
qed

lemma flow_dirs_walls:
  assumes "\<And>dx dy. (dx, dy) \<in> set ds \<Longrightarrow>
      \<not> in_grid s (x + dx) (y + dy) \<or> char_at (field_data s) (x + dx) (y + dy) = Inr CHR ''#''"
  shows "flow_dirs rec s x y lm ret ds =
           sbind (put2 (last_use s) x y (int (UT s))) (\<lambda>lu.
             Inr (s\<lparr>last_use := lu\<rparr>, ret, False, (0, 0)))"
  using assms
proof (induction ds)
  case Nil
  show ?case by simp
next
  case (Cons d ds)
  obtain dx dy where d: "d = (dx, dy)" by (cases d)
  from Cons.prems [of dx dy] d
  have "\<not> in_grid s (x + dx) (y + dy) \<or> char_at (field_data s) (x + dx) (y + dy) = Inr CHR ''#''"
    by simp
  moreover have "flow_dirs rec s x y lm ret ds =
           sbind (put2 (last_use s) x y (int (UT s))) (\<lambda>lu.
             Inr (s\<lparr>last_use := lu\<rparr>, ret, False, (0, 0)))"
    using Cons.prems by (intro Cons.IH) auto
  ultimately show ?case unfolding d by (auto simp: Let_def)
qed

lemma in_grid_nat:
  "in_grid s x y \<longleftrightarrow> (\<exists>a b. x = int a \<and> y = int b \<and> a < rows s \<and> b < cols s)"
proof
  assume "in_grid s x y"
  then have "x = int (nat x) \<and> y = int (nat y) \<and> nat x < rows s \<and> nat y < cols s"
    by (auto simp: in_grid_def)
  then show "\<exists>a b. x = int a \<and> y = int b \<and> a < rows s \<and> b < cols s" by blast
qed (auto simp: in_grid_def)

lemma single_cell_neighbours:
  assumes single: "single_cell_grid s x0 y0" and d: "(dx, dy) \<in> set deltas"
  shows "\<not> in_grid s (int x0 + dx) (int y0 + dy) \<or>
         char_at (field_data s) (int x0 + dx) (int y0 + dy) = Inr CHR ''#''"
proof (cases "in_grid s (int x0 + dx) (int y0 + dy)")
  case False
  then show ?thesis by simp
next
  case True
  then obtain a b where ab: "int x0 + dx = int a" "int y0 + dy = int b" "a < rows s" "b < cols s"
    by (auto simp: in_grid_nat)
  from d have "(dx, dy) \<noteq> (0, 0)" by (auto simp: deltas_def)
  with ab have "\<not> (a = x0 \<and> b = y0)" by auto
  with single ab have "field_data s ! a ! b = CHR ''#''" by (auto simp: single_cell_grid_def)
  moreover from single have "grid_shape (field_data s) (rows s) (cols s)"
    by (simp add: single_cell_grid_def)
  ultimately show ?thesis using ab by (simp add: char_at_grid)
qed

lemma single_cell_propagate_flow:
  fixes s :: "('a::linordered_field) simulator"
  assumes single: "single_cell_grid s x0 y0"
  shows "propagate_flow (Suc n) s (int x0) (int y0) lm = Inr (stamped s x0 y0, 0, False, (0, 0))"
proof -
  from single have fshape: "grid_shape (field_data s) (rows s) (cols s)"
    and lshape: "grid_shape (last_use s) (rows s) (cols s)"
    and x0: "x0 < rows s" and y0: "y0 < cols s"
    and here: "field_data s ! x0 ! y0 \<noteq> CHR ''#''"
    by (simp_all add: single_cell_grid_def)
  let ?lu = "(last_use s)[x0 := (last_use s ! x0)[y0 := int (UT s) - 1]]"
  let ?s1 = "s\<lparr>last_use := ?lu, flow_calls := flow_calls s + 1\<rparr>"
  have single1: "single_cell_grid ?s1 x0 y0"
    using single by (simp add: single_cell_grid_def grid_shape_update)
  have lshape1: "grid_shape ?lu (rows s) (cols s)" using lshape by (rule grid_shape_update)
  have "flow_dirs (propagate_flow n) ?s1 (int x0) (int y0) lm 0 deltas =
          sbind (put2 (last_use ?s1) (int x0) (int y0) (int (UT ?s1))) (\<lambda>lu.
             Inr (?s1\<lparr>last_use := lu\<rparr>, 0, False, (0, 0)))"
    by (rule flow_dirs_walls) (rule single_cell_neighbours [OF single1])
  also have "\<dots> = Inr (stamped s x0 y0, 0, False, (0, 0))"
    using x0 y0 lshape by (simp add: put2_grid [OF lshape1] stamped_def grid_shape_def)
  finally show ?thesis
    using x0 y0 here by (simp add: put2_grid [OF lshape] char_at_grid [OF fshape] Let_def)
qed

lemma single_cell_flow_sweep:
  fixes s :: "('a::linordered_field) simulator"
  assumes single: "single_cell_grid s x0 y0"
  shows "flow_sweep (Suc n) s =
           Inr (if last_use s ! x0 ! y0 \<noteq> int (UT s) + 2
                then stamped (s\<lparr>UT := UT s + 2\<rparr>) x0 y0 else s\<lparr>UT := UT s + 2\<rparr>, False)"
proof -
  let ?s2 = "s\<lparr>UT := UT s + 2\<rparr>"
  let ?s3 = "if last_use s ! x0 ! y0 \<noteq> int (UT s) + 2 then stamped ?s2 x0 y0 else ?s2"
  have single2: "single_cell_grid ?s2 x0 y0" using single by (simp add: single_cell_grid_def)
  from single have fshape: "grid_shape (field_data s) (rows s) (cols s)"
    and lshape: "grid_shape (last_use s) (rows s) (cols s)"
    and x0: "x0 < rows s" and y0: "y0 < cols s"
    and walls: "\<And>x y. x < rows s \<Longrightarrow> y < cols s \<Longrightarrow>
       field_data s ! x ! y \<noteq> CHR ''#'' \<longleftrightarrow> x = x0 \<and> y = y0"
    by (simp_all add: single_cell_grid_def)
  have other: "flow_cell (Suc n) c (t, b) = Inr (t, b)"
    if "c \<in> set (cells s)" "c \<noteq> (int x0, int y0)" "field_data t = field_data s" for c t b
  proof -
    from that obtain x y where c: "c = (int x, int y)" "x < rows s" "y < cols s"
      by (auto simp: set_cells)
    with that(2) walls [of x y] have "field_data s ! x ! y = CHR ''#''" by auto
    with c fshape that(3) show ?thesis by (simp add: flow_cell_def char_at_grid)
  qed
  have here: "flow_cell (Suc n) (int x0, int y0) (?s2, False) = Inr (?s3, False)"
    using walls [OF x0 y0] x0 y0 single_cell_propagate_flow [OF single2, of n 1]
    by (simp add: flow_cell_def char_at_grid [OF fshape] at2_grid [OF lshape])
  have "forM (cells s) (flow_cell (Suc n)) (?s2, False) = Inr (?s3, False)"
  proof (rule forM_one_Inr [where ?c0.0 = "(int x0, int y0)"])
    show "distinct (cells s)" by (rule distinct_cells)
    show "(int x0, int y0) \<in> set (cells s)" using x0 y0 by (auto simp: set_cells)
    show "flow_cell (Suc n) c (?s2, False) = Inr (?s2, False)"
      if "c \<in> set (cells s)" "c \<noteq> (int x0, int y0)" for c
      using that by (intro other) simp_all
    show "flow_cell (Suc n) c (?s3, False) = Inr (?s3, False)"
      if "c \<in> set (cells s)" "c \<noteq> (int x0, int y0)" for c
      using that by (intro other) (simp_all add: stamped_def)
    show "flow_cell (Suc n) (int x0, int y0) (?s2, False) = Inr (?s3, False)" by (rule here)
  qed
  then show ?thesis by (simp add: flow_sweep_def)
qed

lemma single_cell_run_flow:
  fixes s :: "('a::linordered_field) simulator"
  assumes single: "single_cell_grid s x0 y0"
  shows "run_flow (Suc (Suc n)) s =
           Inr (if last_use s ! x0 ! y0 \<noteq> int (UT s) + 2
                then stamped (s\<lparr>UT := UT s + 2\<rparr>) x0 y0 else s\<lparr>UT := UT s + 2\<rparr>)"
  by (simp add: single_cell_flow_sweep [OF single])

text \<open>
  Claim C9, as the code has it. On a grid whose only cell that is not a wall is
  \<open>(x0, y0)\<close>, phase A adds nothing: the cell below is a wall, and the state is
  returned as it was (when \<open>(x0, y0)\<close> is in the last row there is no cell below, and
  the phase does not return a state at all). \<^verbatim>\<open>propagate_flow\<close> on the cell returns
  \<open>(0, false, (0, 0))\<close>, and the sweeps of phase C end after the first one; neither
  changes \<^verbatim>\<open>velocity_flow\<close>.
\<close>

theorem single_cell_no_gravity_no_flow:
  fixes s :: "('a::linordered_field) simulator"
  assumes "single_cell_grid s x0 y0"
  shows "(x0 + 1 < rows s \<longrightarrow> run_gravity s = Inr s) \<and>
         (\<forall>s'. run_gravity s = Inr s' \<longrightarrow> velocity s' = velocity s) \<and>
         (\<exists>s'. propagate_flow (Suc n) s (int x0) (int y0) lm = Inr (s', 0, False, (0, 0)) \<and>
               velocity_flow s' = velocity_flow s) \<and>
         (\<exists>s'. run_flow (Suc (Suc n)) s = Inr s' \<and> velocity_flow s' = velocity_flow s \<and>
               velocity s' = velocity s \<and> UT s' = UT s + 2)"
  using single_cell_gravity [OF assms] single_cell_propagate_flow [OF assms, of n lm]
    single_cell_run_flow [OF assms, of n]
  by (simp add: stamped_def)

lemma single_center_cell: "single_cell_grid center_cell 1 1"
  by (simp add: single_cell_grid_def grid_shape_def center_cell_def less_Suc_eq
        numeral_3_eq_3 all_conj_distrib)

theorem single_cell_no_gravity_no_flow_witness:
  "single_cell_grid center_cell 1 1 \<and> 1 + 1 < rows center_cell \<and>
   run_gravity center_cell = Inr center_cell \<and>
   (\<exists>s'. run_flow 2 center_cell = Inr s' \<and> velocity_flow s' = VectorField_init 3 3)"
  using single_cell_no_gravity_no_flow [OF single_center_cell, of 0 1] single_center_cell
  by (auto simp: center_cell_def numeral_2_eq_2)

text \<open>
  Claim C9 as it is written fails in its first half: on \<open>center_cell\<close>, with \<open>g = 0.1\<close>,
  phase A leaves the velocity of the cell \<open>(1, 1)\<close> toward the south (direction 1) at 0.
\<close>

theorem gravity_single_cell_counterexample:
  "\<not> (\<exists>s'. run_gravity center_cell = Inr s' \<and>
          velocity s' ! 1 ! 1 ! 1 = velocity center_cell ! 1 ! 1 ! 1 + g center_cell)"
proof -
  have "map_sum id (\<lambda>s'. velocity s' ! 1 ! 1 ! 1) (run_gravity center_cell) = Inr 0"
    by code_simp
  moreover have "velocity center_cell ! 1 ! 1 ! 1 + g center_cell = 1 / 10"
    by code_simp
  ultimately show ?thesis by auto
qed

subsection \<open>Termination and work of the flow propagation\<close>

lemma finite_unclaimed [simp]: "finite (unclaimed s)"
proof -
  have "unclaimed s \<subseteq> {..<rows s} \<times> {..<cols s}" by (auto simp: unclaimed_def)
  then show ?thesis by (rule finite_subset) simp
qed

lemma card_unclaimed_le: "card (unclaimed s) \<le> rows s * cols s"
proof -
  have "unclaimed s \<subseteq> {..<rows s} \<times> {..<cols s}" by (auto simp: unclaimed_def)
  then have "card (unclaimed s) \<le> card ({..<rows s} \<times> {..<cols s})"
    by (intro card_mono) simp_all
  then show ?thesis by simp
qed

lemma unclaimed_mono:
  assumes "stamps_advance {} s s'" "rows s' = rows s" "cols s' = cols s" "UT s' = UT s"
  shows "unclaimed s' \<subseteq> unclaimed s"
  using assms by (fastforce simp: unclaimed_def stamps_advance_def)

lemma nth2_update:
  "a[x := (a ! x)[y := t]] ! x' ! y' =
     (if x' = x \<and> y' = y \<and> x < length a \<and> y < length (a ! x) then t else a ! x' ! y')"
  by (cases "x < length a"; cases "x' = x"; cases "y' = y"; cases "y < length (a ! x)")
     (simp_all add: list_update_beyond)

lemma grid_nth:
  assumes "grid_shape a r c" "x < r"
  shows "length (a ! x) = c"
  using assms by (simp add: grid_shape_def)

lemma cells4_nth:
  assumes "cells4 v" "x < length v" "y < length (v ! x)"
  shows "length (v ! x ! y) = 4"
proof -
  from assms(2) have "v ! x \<in> set v" by simp
  moreover from assms(3) have "v ! x ! y \<in> set (v ! x)" by simp
  ultimately show ?thesis using assms(1) by (simp add: cells4_def)
qed

lemma cells4_update3:
  assumes "cells4 v"
  shows "cells4 (v[x := (v ! x)[y := (v ! x ! y)[i := t]]])"
proof -
  have "length cell = 4" if "row \<in> set (v[x := (v ! x)[y := (v ! x ! y)[i := t]]])" "cell \<in> set row"
    for row cell
  proof (cases "row \<in> set v")
    case True
    with that assms show ?thesis by (simp add: cells4_def)
  next
    case False
    with that(1) set_update_subset_insert [of v x "(v ! x)[y := (v ! x ! y)[i := t]]"]
    have row: "row = (v ! x)[y := (v ! x ! y)[i := t]]" by auto
    with False have xl: "x < length v" by (metis list_update_beyond not_less that(1))
    show ?thesis
    proof (cases "cell \<in> set (v ! x)")
      case True
      with xl assms show ?thesis by (auto simp: cells4_def)
    next
      case False
      with that(2) row set_update_subset_insert [of "v ! x" y "(v ! x ! y)[i := t]"]
      have cell: "cell = (v ! x ! y)[i := t]" by auto
      with False row that(2) have yl: "y < length (v ! x)"
        by (metis list_update_beyond not_less)
      with xl assms have "length (v ! x ! y) = 4" by (simp add: cells4_nth)
      with cell show ?thesis by simp
    qed
  qed
  then show ?thesis by (simp add: cells4_def)
qed

lemma find_pos_deltas: "d \<in> set deltas \<Longrightarrow> find_pos deltas d < 4"
  by (auto simp: deltas_def)

lemma velocity_get_ok:
  assumes "grid_shape v r c" "cells4 v" "x < r" "y < c" "(dx, dy) \<in> set deltas"
  shows "\<exists>t. velocity_get v (int x) (int y) dx dy = Inr t"
proof -
  from assms have "x < length v" "y < length (v ! x)" by (simp_all add: grid_shape_def)
  moreover from this assms(2) have "length (v ! x ! y) = 4" by (simp add: cells4_nth)
  ultimately show ?thesis
    using find_pos_deltas [OF assms(5)]
    by (simp add: velocity_get_def VectorField_get_def at3_def)
qed

lemma velocity_add_ok:
  assumes "grid_shape v r c" "cells4 v" "x < r" "y < c" "(dx, dy) \<in> set deltas"
  shows "\<exists>v'. velocity_add v (int x) (int y) dx dy t = Inr v' \<and> grid_shape v' r c \<and> cells4 v'"
proof -
  from assms have xl: "x < length v" and yl: "y < length (v ! x)" by (simp_all add: grid_shape_def)
  from xl assms(1,3) have "v \<noteq> []" "length (v ! 0) = c" by (auto simp: grid_shape_def)
  with assms xl have valid: "is_valid_position v x y"
    by (simp add: is_valid_position_def VectorField_rows_def VectorField_cols_def grid_shape_def)
  from xl yl assms(2) have l4: "length (v ! x ! y) = 4" by (simp add: cells4_nth)
  let ?i = "find_pos deltas (dx, dy)"
  have i: "?i < 4" by (rule find_pos_deltas [OF assms(5)])
  have len: "length deltas = 4" by (simp add: deltas_def)
  let ?v' = "v[x := (v ! x)[y := (v ! x ! y)[?i := v ! x ! y ! ?i + t]]]"
  have "velocity_add v (int x) (int y) dx dy t = Inr ?v'"
    using valid xl yl l4 i len
    by (simp add: velocity_add_def VectorField_add_def Let_def at3_def put3_def)
  moreover have "grid_shape ?v' r c" using assms(1) by (rule grid_shape_update)
  moreover have "cells4 ?v'" using assms(2) by (rule cells4_update3)
  ultimately show ?thesis by blast
qed

lemma flow_advance_refl: "flow_wf s \<Longrightarrow> flow_advance E s s"
  by (simp add: flow_advance_def same_frame_def stamps_advance_def work_bounded_def)

lemma flow_advance_trans:
  assumes "flow_advance {} s s1" "flow_advance E s1 s2"
  shows "flow_advance E s s2"
proof -
  from assms have f: "same_frame s s1" "same_frame s1 s2"
    and st: "stamps_advance {} s s1" "stamps_advance E s1 s2"
    and w: "work_bounded s s1" "work_bounded s1 s2"
    by (simp_all add: flow_advance_def)
  from f have "same_frame s s2" by (simp add: same_frame_def)
  moreover from w have "work_bounded s s2" by (simp add: work_bounded_def)
  moreover have "stamps_advance E s s2"
    unfolding stamps_advance_def
  proof (intro allI impI)
    fix x y assume xy: "x < rows s" "y < cols s" "(x, y) \<notin> E"
    from st(1) xy have 1: "last_use s1 ! x ! y = last_use s ! x ! y \<or>
        (last_use s ! x ! y < int (UT s) - 1 \<and> last_use s1 ! x ! y = int (UT s))"
      by (simp add: stamps_advance_def)
    from st(2) xy f(1) have 2: "last_use s2 ! x ! y = last_use s1 ! x ! y \<or>
        (last_use s1 ! x ! y < int (UT s) - 1 \<and> last_use s2 ! x ! y = int (UT s))"
      by (simp add: stamps_advance_def same_frame_def)
    from 1 2 show "last_use s2 ! x ! y = last_use s ! x ! y \<or>
        (last_use s ! x ! y < int (UT s) - 1 \<and> last_use s2 ! x ! y = int (UT s))"
      by auto
  qed
  ultimately show ?thesis by (simp add: flow_advance_def)
qed

lemma flow_commit:
  assumes wf: "flow_wf s" and xy: "x < rows s" "y < cols s"
    and own: "last_use s ! x ! y = int (UT s) - 1"
    and vf: "grid_shape vf (rows s) (cols s)" "cells4 vf"
  shows "flow_advance {(x, y)} s
           (s\<lparr>velocity_flow := vf, last_use := (last_use s)[x := (last_use s ! x)[y := int (UT s)]]\<rparr>)"
    (is "flow_advance _ s ?s'")
proof -
  from wf have lshape: "grid_shape (last_use s) (rows s) (cols s)" by (simp add: flow_wf_def)
  have "flow_wf ?s'" using wf vf by (simp add: flow_wf_def grid_shape_update)
  then have "same_frame s ?s'" by (simp add: same_frame_def)
  moreover have "stamps_advance {(x, y)} s ?s'"
    by (auto simp: stamps_advance_def nth2_update)
  moreover have "unclaimed ?s' = unclaimed s"
    using own by (auto simp: unclaimed_def nth2_update)
  then have "work_bounded s ?s'" by (simp add: work_bounded_def)
  ultimately show ?thesis by (simp add: flow_advance_def)
qed

lemma flow_dirs_returns:
  fixes s :: "('a::linordered_field) simulator"
  assumes rec: "flow_ok rec n"
    and ds: "set ds \<subseteq> set deltas"
    and wf: "flow_wf s" and xy: "x < rows s" "y < cols s"
    and own: "last_use s ! x ! y = int (UT s) - 1"
    and card: "card (unclaimed s) \<le> n"
  shows "\<exists>s' t pr e. flow_dirs rec s (int x) (int y) lm ret ds = Inr (s', t, pr, e) \<and>
           flow_advance {(x, y)} s s' \<and> last_use s' ! x ! y = int (UT s)"
  using ds wf xy own card
proof (induction ds arbitrary: s ret)
  case Nil
  from Nil.prems have lshape: "grid_shape (last_use s) (rows s) (cols s)"
    and vf: "grid_shape (velocity_flow s) (rows s) (cols s)" "cells4 (velocity_flow s)"
    by (simp_all add: flow_wf_def)
  let ?s' = "s\<lparr>velocity_flow := velocity_flow s,
               last_use := (last_use s)[x := (last_use s ! x)[y := int (UT s)]]\<rparr>"
  have "flow_advance {(x, y)} s ?s'"
    using Nil.prems vf by (intro flow_commit) simp_all
  moreover have "last_use ?s' ! x ! y = int (UT s)"
    using Nil.prems lshape by (simp add: nth2_update grid_shape_def)
  moreover have "flow_dirs rec s (int x) (int y) lm ret [] = Inr (?s', ret, False, (0, 0))"
    using Nil.prems by (simp add: put2_grid [OF lshape])
  ultimately show ?case by blast
next
  case (Cons d ds)
  obtain dx dy where d: "d = (dx, dy)" by (cases d)
  from Cons.prems d have dmem: "(dx, dy) \<in> set deltas" and ds: "set ds \<subseteq> set deltas" by auto
  note wf = \<open>flow_wf s\<close>
  from wf have fshape: "grid_shape (field_data s) (rows s) (cols s)"
    and lshape: "grid_shape (last_use s) (rows s) (cols s)"
    and vshape: "grid_shape (velocity s) (rows s) (cols s)" "cells4 (velocity s)"
    and vfshape: "grid_shape (velocity_flow s) (rows s) (cols s)" "cells4 (velocity_flow s)"
    by (simp_all add: flow_wf_def)
  note xy = \<open>x < rows s\<close> \<open>y < cols s\<close>
  note own = \<open>last_use s ! x ! y = int (UT s) - 1\<close>
  have skip: "\<exists>s' t pr e. flow_dirs rec s (int x) (int y) lm ret ds = Inr (s', t, pr, e) \<and>
           flow_advance {(x, y)} s s' \<and> last_use s' ! x ! y = int (UT s)"
    using ds Cons.prems by (intro Cons.IH) simp_all
  show ?case
  proof (cases "in_grid s (int x + dx) (int y + dy)")
    case False
    with skip show ?thesis unfolding d by (simp add: Let_def)
  next
    case True
    then obtain a b where ab: "int x + dx = int a" "int y + dy = int b" "a < rows s" "b < cols s"
      by (auto simp: in_grid_nat)
    from dmem have "(dx, dy) \<noteq> (0, 0)" by (auto simp: deltas_def)
    with ab have neq: "(a, b) \<noteq> (x, y)" by auto
    have ch: "char_at (field_data s) (int a) (int b) = Inr (field_data s ! a ! b)"
      using fshape ab by (simp add: char_at_grid)
    have lu: "at2 (last_use s) (int a) (int b) = Inr (last_use s ! a ! b)"
      using lshape ab by (simp add: at2_grid)
    obtain cap where cap: "velocity_get (velocity s) (int x) (int y) dx dy = Inr cap"
      using velocity_get_ok [OF vshape xy dmem] by blast
    obtain flow where flow: "velocity_get (velocity_flow s) (int x) (int y) dx dy = Inr flow"
      using velocity_get_ok [OF vfshape xy dmem] by blast
    let ?l = "last_use s ! a ! b"
    consider (wall) "field_data s ! a ! b = CHR ''#''"
      | (late) "field_data s ! a ! b \<noteq> CHR ''#''" "\<not> ?l < int (UT s)"
      | (full) "field_data s ! a ! b \<noteq> CHR ''#''" "?l < int (UT s)" "flow = cap"
      | (front) "field_data s ! a ! b \<noteq> CHR ''#''" "?l < int (UT s)" "flow \<noteq> cap"
          "?l = int (UT s) - 1"
      | (deeper) "field_data s ! a ! b \<noteq> CHR ''#''" "?l < int (UT s)" "flow \<noteq> cap"
          "?l \<noteq> int (UT s) - 1"
      by blast
    then show ?thesis
    proof cases
      case wall
      with skip True ab ch show ?thesis unfolding d by (simp add: Let_def)
    next
      case late
      with skip True ab ch lu show ?thesis unfolding d by (simp add: Let_def)
    next
      case full
      with skip True ab ch lu cap flow show ?thesis unfolding d by (simp add: Let_def)
    next
      case front
      let ?vp = "min lm (cap - flow)"
      obtain vf where vf: "velocity_add (velocity_flow s) (int x) (int y) dx dy ?vp = Inr vf"
        "grid_shape vf (rows s) (cols s)" "cells4 vf"
        using velocity_add_ok [OF vfshape xy dmem] by blast
      let ?s' = "s\<lparr>velocity_flow := vf,
                   last_use := (last_use s)[x := (last_use s ! x)[y := int (UT s)]]\<rparr>"
      have "flow_dirs rec s (int x) (int y) lm ret ((dx, dy) # ds)
              = Inr (?s', ?vp, True, (int a, int b))"
        using True ab ch lu cap flow front vf(1) xy
        by (simp add: Let_def put2_grid [OF lshape])
      moreover have "flow_advance {(x, y)} s ?s'"
        using wf xy own vf(2,3) by (rule flow_commit)
      moreover have "last_use ?s' ! x ! y = int (UT s)"
        using xy lshape by (simp add: nth2_update grid_shape_def)
      ultimately show ?thesis unfolding d by blast
    next
      case deeper
      let ?vp = "min lm (cap - flow)"
      from deeper ab have un: "(a, b) \<in> unclaimed s" by (simp add: unclaimed_def)
      from rec wf ab(3,4) deeper(1) un \<open>card (unclaimed s) \<le> n\<close>
      obtain s1 t pr e where r: "rec s (int a) (int b) ?vp = Inr (s1, t, pr, e)"
        and adv: "flow_advance {} s s1" and "last_use s1 ! a ! b = int (UT s)"
        unfolding flow_ok_def by blast
      from adv have fr: "same_frame s s1" and st: "stamps_advance {} s s1"
        by (simp_all add: flow_advance_def)
      from fr have wf1: "flow_wf s1" and eqs: "rows s1 = rows s" "cols s1 = cols s" "UT s1 = UT s"
        by (simp_all add: same_frame_def)
      from st xy have "last_use s1 ! x ! y = last_use s ! x ! y \<or>
          (last_use s ! x ! y < int (UT s) - 1 \<and> last_use s1 ! x ! y = int (UT s))"
        by (simp add: stamps_advance_def)
      with own have own1: "last_use s1 ! x ! y = int (UT s1) - 1"
        by (simp add: eqs)
      from wf1 have lshape1: "grid_shape (last_use s1) (rows s) (cols s)"
        and vfshape1: "grid_shape (velocity_flow s1) (rows s) (cols s)" "cells4 (velocity_flow s1)"
        by (simp_all add: flow_wf_def eqs)
      have step: "flow_dirs rec s (int x) (int y) lm ret ((dx, dy) # ds) =
          (if pr
           then sbind (velocity_add (velocity_flow s1) (int x) (int y) dx dy t) (\<lambda>vf.
                sbind (put2 (last_use s1) (int x) (int y) (int (UT s1))) (\<lambda>lu.
                  Inr (s1\<lparr>velocity_flow := vf, last_use := lu\<rparr>,
                       t, pr \<and> e \<noteq> (int x, int y), e)))
           else flow_dirs rec s1 (int x) (int y) lm (ret + t) ds)"
        using True ab ch lu cap flow deeper r by (simp add: Let_def)
      show ?thesis
      proof (cases pr)
        case True
        obtain vf where vf: "velocity_add (velocity_flow s1) (int x) (int y) dx dy t = Inr vf"
          "grid_shape vf (rows s) (cols s)" "cells4 vf"
          using velocity_add_ok [OF vfshape1 xy dmem] by blast
        let ?s' = "s1\<lparr>velocity_flow := vf,
                   last_use := (last_use s1)[x := (last_use s1 ! x)[y := int (UT s1)]]\<rparr>"
        have "flow_dirs rec s (int x) (int y) lm ret ((dx, dy) # ds)
              = Inr (?s', t, pr \<and> e \<noteq> (int x, int y), e)"
          using step True vf(1) xy by (simp add: put2_grid [OF lshape1])
        moreover have "flow_advance {(x, y)} s1 ?s'"
          using wf1 xy own1 vf(2,3) by (intro flow_commit) (simp_all add: eqs)
        with adv have "flow_advance {(x, y)} s ?s'" by (rule flow_advance_trans)
        moreover have "last_use ?s' ! x ! y = int (UT s)"
          using xy lshape1 by (simp add: nth2_update grid_shape_def eqs)
        ultimately show ?thesis unfolding d by blast
      next
        case False
        have "unclaimed s1 \<subseteq> unclaimed s" using st eqs by (intro unclaimed_mono) simp_all
        then have "card (unclaimed s1) \<le> card (unclaimed s)" by (intro card_mono) simp_all
        with \<open>card (unclaimed s) \<le> n\<close> have c1: "card (unclaimed s1) \<le> n" by simp
        from Cons.IH [OF ds wf1 _ _ own1 c1, of "ret + t"] xy eqs
        obtain s' t' pr' e' where
          r': "flow_dirs rec s1 (int x) (int y) lm (ret + t) ds = Inr (s', t', pr', e')"
          and adv': "flow_advance {(x, y)} s1 s'" and l': "last_use s' ! x ! y = int (UT s1)"
          by auto
        from adv adv' have "flow_advance {(x, y)} s s'" by (rule flow_advance_trans)
        with step False r' l' eqs show ?thesis unfolding d by simp
      qed
    qed
  qed
qed

lemma flow_enter:
  assumes wf: "flow_wf s" and xy: "x < rows s" "y < cols s" and un: "(x, y) \<in> unclaimed s"
  shows "flow_wf (s\<lparr>last_use := (last_use s)[x := (last_use s ! x)[y := int (UT s) - 1]],
                   flow_calls := flow_calls s + 1\<rparr>)" (is "flow_wf ?s1")
    and "unclaimed (s\<lparr>last_use := (last_use s)[x := (last_use s ! x)[y := int (UT s) - 1]],
                   flow_calls := flow_calls s + 1\<rparr>) = unclaimed s - {(x, y)}"
    and "last_use (s\<lparr>last_use := (last_use s)[x := (last_use s ! x)[y := int (UT s) - 1]],
                   flow_calls := flow_calls s + 1\<rparr>) ! x ! y = int (UT s) - 1"
proof -
  from wf have lshape: "grid_shape (last_use s) (rows s) (cols s)" by (simp add: flow_wf_def)
  show "flow_wf ?s1" using wf by (simp add: flow_wf_def grid_shape_update)
  show "unclaimed ?s1 = unclaimed s - {(x, y)}"
    using xy lshape by (auto simp: unclaimed_def nth2_update grid_shape_def)
  show "last_use ?s1 ! x ! y = int (UT s) - 1"
    using xy lshape by (simp add: nth2_update grid_shape_def)
qed

lemma propagate_flow_ok: "flow_ok (propagate_flow n) n"
proof (induction n)
  case 0
  have "card (unclaimed s) \<noteq> 0" if "(x, y) \<in> unclaimed s" for s :: "'a simulator" and x y
    using that by (auto simp: card_eq_0_iff)
  then show ?case by (auto simp: flow_ok_def)
next
  case (Suc n)
  show ?case
    unfolding flow_ok_def
  proof (intro allI impI)
    fix s :: "'a simulator" and x y lm
    assume wf: "flow_wf s" and xy: "x < rows s" "y < cols s"
      and nw: "field_data s ! x ! y \<noteq> CHR ''#''"
      and un: "(x, y) \<in> unclaimed s" and card: "card (unclaimed s) \<le> Suc n"
    let ?s1 = "s\<lparr>last_use := (last_use s)[x := (last_use s ! x)[y := int (UT s) - 1]],
                 flow_calls := flow_calls s + 1\<rparr>"
    from wf have fshape: "grid_shape (field_data s) (rows s) (cols s)"
      and lshape: "grid_shape (last_use s) (rows s) (cols s)"
      by (simp_all add: flow_wf_def)
    note e = flow_enter [OF wf xy un]
    from un have "card (unclaimed s - {(x, y)}) = card (unclaimed s) - 1" by simp
    with card e(2) have c1: "card (unclaimed ?s1) \<le> n" by simp
    from un have pos: "0 < card (unclaimed s)" by (auto simp: card_gt_0_iff)
    from flow_dirs_returns [OF Suc subset_refl e(1) _ _ _ c1, of x y lm 0] xy e(3)
    obtain s' t pr ep where
      r: "flow_dirs (propagate_flow n) ?s1 (int x) (int y) lm 0 deltas = Inr (s', t, pr, ep)"
      and adv: "flow_advance {(x, y)} ?s1 s'" and l: "last_use s' ! x ! y = int (UT s)"
      by auto
    have call: "propagate_flow (Suc n) s (int x) (int y) lm = Inr (s', t, pr, ep)"
      using r xy nw by (simp add: put2_grid [OF lshape] char_at_grid [OF fshape] Let_def)
    from adv have fr: "same_frame ?s1 s'" and st: "stamps_advance {(x, y)} ?s1 s'"
      and w: "work_bounded ?s1 s'"
      by (simp_all add: flow_advance_def)
    have "same_frame s s'" using fr by (simp add: same_frame_def)
    moreover have "stamps_advance {} s s'"
      unfolding stamps_advance_def
    proof (intro allI impI)
      fix a b assume ab: "a < rows s" "b < cols s"
      show "last_use s' ! a ! b = last_use s ! a ! b \<or>
          (last_use s ! a ! b < int (UT s) - 1 \<and> last_use s' ! a ! b = int (UT s))"
      proof (cases "(a, b) = (x, y)")
        case True
        with un l show ?thesis by (simp add: unclaimed_def)
      next
        case False
        with st ab have "last_use s' ! a ! b = last_use ?s1 ! a ! b \<or>
          (last_use ?s1 ! a ! b < int (UT s) - 1 \<and> last_use s' ! a ! b = int (UT s))"
          by (simp add: stamps_advance_def)
        with False show ?thesis by (auto simp: nth2_update)
      qed
    qed
    moreover have "work_bounded s s'"
      using w e(2) un pos by (simp add: work_bounded_def)
    ultimately have "flow_advance {} s s'" by (simp add: flow_advance_def)
    with call l
    show "\<exists>s' t pr e. propagate_flow (Suc n) s (int x) (int y) lm = Inr (s', t, pr, e) \<and>
           flow_advance {} s s' \<and> last_use s' ! x ! y = int (UT s)"
      by blast
  qed
qed

lemma forM_invariant:
  assumes "I s" and "\<And>c t. c \<in> set cs \<Longrightarrow> I t \<Longrightarrow> \<exists>t'. f c t = Inr t' \<and> I t'"
  shows "\<exists>s'. forM cs f s = Inr s' \<and> I s'"
  using assms
proof (induction cs arbitrary: s)
  case Nil
  then show ?case by simp
next
  case (Cons c cs)
  from Cons.prems obtain t where t: "f c s = Inr t" "I t" by (meson list.set_intros(1))
  from Cons.IH [OF t(2)] Cons.prems(2) obtain s' where "forM cs f t = Inr s'" "I s'"
    by (meson list.set_intros(2))
  with t show ?case by auto
qed

lemma settled_advance:
  assumes "settled s" "flow_advance {} s s'"
  shows "settled s'"
proof -
  from assms(2) have fr: "rows s' = rows s" "cols s' = cols s" "UT s' = UT s"
    and st: "stamps_advance {} s s'"
    by (simp_all add: flow_advance_def same_frame_def)
  show ?thesis
    unfolding settled_def fr
  proof (intro allI impI)
    fix x y assume xy: "x < rows s" "y < cols s"
    with assms(1) have "last_use s ! x ! y < int (UT s) - 1 \<or> last_use s ! x ! y = int (UT s)"
      by (simp add: settled_def)
    moreover from st xy have "last_use s' ! x ! y = last_use s ! x ! y \<or>
        (last_use s ! x ! y < int (UT s) - 1 \<and> last_use s' ! x ! y = int (UT s))"
      by (simp add: stamps_advance_def)
    ultimately show "last_use s' ! x ! y < int (UT s) - 1 \<or> last_use s' ! x ! y = int (UT s)"
      by auto
  qed
qed

lemma flow_cell_ok:
  fixes t :: "('a::linordered_field) simulator"
  assumes wf: "flow_wf t" and se: "settled t" and card: "card (unclaimed t) \<le> n"
    and c: "c \<in> set (cells t)"
  shows "\<exists>t' b'. flow_cell n c (t, b) = Inr (t', b') \<and> flow_advance {} t t'"
proof -
  from c obtain x y where xy: "c = (int x, int y)" "x < rows t" "y < cols t"
    by (auto simp: set_cells)
  from wf have fshape: "grid_shape (field_data t) (rows t) (cols t)"
    and lshape: "grid_shape (last_use t) (rows t) (cols t)"
    by (simp_all add: flow_wf_def)
  have ch: "char_at (field_data t) (int x) (int y) = Inr (field_data t ! x ! y)"
    using fshape xy by (simp add: char_at_grid)
  have lu: "at2 (last_use t) (int x) (int y) = Inr (last_use t ! x ! y)"
    using lshape xy by (simp add: at2_grid)
  show ?thesis
  proof (cases "field_data t ! x ! y \<noteq> CHR ''#'' \<and> last_use t ! x ! y \<noteq> int (UT t)")
    case False
    then have "flow_cell n c (t, b) = Inr (t, b)"
      using ch lu xy(1) by (auto simp: flow_cell_def)
    with wf show ?thesis by (auto intro: flow_advance_refl)
  next
    case True
    with se xy have "(x, y) \<in> unclaimed t" by (auto simp: settled_def unclaimed_def)
    with propagate_flow_ok [of n] wf xy True card
    obtain t' v pr e where r: "propagate_flow n t (int x) (int y) 1 = Inr (t', v, pr, e)"
      and adv: "flow_advance {} t t'"
      unfolding flow_ok_def by blast
    from r True ch lu xy(1)
    have "flow_cell n c (t, b) = Inr (t', if v > 0 then True else b)"
      by (simp add: flow_cell_def)
    with adv show ?thesis by blast
  qed
qed

lemma flow_sweep_returns:
  fixes s :: "('a::linordered_field) simulator"
  assumes wf: "flow_wf s"
    and old: "\<forall>x < rows s. \<forall>y < cols s. last_use s ! x ! y \<le> int (UT s)"
    and n: "rows s * cols s \<le> n"
  shows "\<exists>s' prop. flow_sweep n s = Inr (s', prop) \<and>
           flow_advance {} (s\<lparr>UT := UT s + 2\<rparr>) s' \<and> settled s'"
proof -
  let ?s2 = "s\<lparr>UT := UT s + 2\<rparr>"
  let ?I = "\<lambda>(t, b :: bool). flow_advance {} ?s2 t \<and> settled t"
  have wf2: "flow_wf ?s2" using wf by (simp add: flow_wf_def)
  have se2: "settled ?s2"
    unfolding settled_def
  proof (intro allI impI)
    fix x y assume "x < rows ?s2" "y < cols ?s2"
    with old have "last_use s ! x ! y \<le> int (UT s)" by simp
    then show "last_use ?s2 ! x ! y < int (UT ?s2) - 1 \<or> last_use ?s2 ! x ! y = int (UT ?s2)"
      by simp
  qed
  have init: "?I (?s2, False)" using wf2 se2 by (simp add: flow_advance_refl)
  have step: "\<exists>t'. flow_cell n c t = Inr t' \<and> ?I t'" if "c \<in> set (cells s)" "?I t" for c t
  proof -
    obtain u b where t: "t = (u, b)" by (cases t)
    with that(2) have adv: "flow_advance {} ?s2 u" and se: "settled u" by simp_all
    from adv have wfu: "flow_wf u" and eqs: "rows u = rows s" "cols u = cols s" "UT u = UT s + 2"
      and st: "stamps_advance {} ?s2 u"
      by (simp_all add: flow_advance_def same_frame_def)
    have "unclaimed u \<subseteq> unclaimed ?s2" using st eqs by (intro unclaimed_mono) simp_all
    then have "card (unclaimed u) \<le> card (unclaimed ?s2)" by (intro card_mono) simp_all
    also have "\<dots> \<le> rows s * cols s" using card_unclaimed_le [of ?s2] by simp
    finally have cu: "card (unclaimed u) \<le> n" using n by simp
    from that(1) eqs have "c \<in> set (cells u)" by (simp add: cells_def)
    from flow_cell_ok [OF wfu se cu this, of b]
    obtain u' b' where r: "flow_cell n c (u, b) = Inr (u', b')" and a: "flow_advance {} u u'"
      by blast
    from adv a have "flow_advance {} ?s2 u'" by (rule flow_advance_trans)
    moreover from se a have "settled u'" by (rule settled_advance)
    ultimately show ?thesis using r t by simp
  qed
  from forM_invariant [of ?I "(?s2, False)" "cells s" "flow_cell n", OF init step]
  show ?thesis by (auto simp: flow_sweep_def)
qed

text \<open>
  Claim C7. In a state whose fields have the extents of the grid, a call of
  \<^verbatim>\<open>propagate_flow\<close> on an unclaimed cell that is not a wall returns, with a budget of
  nested calls as large as the number of unclaimed cells; it leaves its cell stamped
  \<open>UT\<close>, claims no cell back, and every entry it counts has used up an unclaimed cell.
  A sweep of phase C that starts with no stamp above \<open>UT\<close> returns with a budget of
  \<open>R * C\<close>, after at most \<open>R * C\<close> entries into \<^verbatim>\<open>propagate_flow\<close>, each of which runs
  the loop over the four deltas once; it ends with no stamp above the new \<open>UT\<close>, as the
  next sweep needs.
\<close>

theorem propagate_flow_terminates:
  fixes s :: "('a::linordered_field) simulator"
  assumes "flow_wf s"
  shows "(\<forall>x y lm n. x < rows s \<longrightarrow> y < cols s \<longrightarrow> field_data s ! x ! y \<noteq> CHR ''#'' \<longrightarrow>
            last_use s ! x ! y < int (UT s) - 1 \<longrightarrow> card (unclaimed s) \<le> n \<longrightarrow>
            (\<exists>s' t pr e. propagate_flow n s (int x) (int y) lm = Inr (s', t, pr, e) \<and>
               last_use s' ! x ! y = int (UT s) \<and> unclaimed s' \<subseteq> unclaimed s - {(x, y)} \<and>
               flow_calls s' + card (unclaimed s') \<le> flow_calls s + card (unclaimed s))) \<and>
         ((\<forall>x < rows s. \<forall>y < cols s. last_use s ! x ! y \<le> int (UT s)) \<longrightarrow>
            (\<forall>n \<ge> rows s * cols s. \<exists>s' prop. flow_sweep n s = Inr (s', prop) \<and>
               flow_calls s' \<le> flow_calls s + rows s * cols s \<and> UT s' = UT s + 2 \<and>
               (\<forall>x < rows s. \<forall>y < cols s. last_use s' ! x ! y \<le> int (UT s'))))"
proof (intro conjI allI impI)
  fix x y lm n
  assume xy: "x < rows s" "y < cols s" and nw: "field_data s ! x ! y \<noteq> CHR ''#''"
    and l: "last_use s ! x ! y < int (UT s) - 1" and card: "card (unclaimed s) \<le> n"
  from xy l have un: "(x, y) \<in> unclaimed s" by (simp add: unclaimed_def)
  with propagate_flow_ok [of n] assms xy nw card
  obtain s' t pr e where r: "propagate_flow n s (int x) (int y) lm = Inr (s', t, pr, e)"
    and adv: "flow_advance {} s s'" and l': "last_use s' ! x ! y = int (UT s)"
    unfolding flow_ok_def by blast
  from adv have eqs: "rows s' = rows s" "cols s' = cols s" "UT s' = UT s"
    and st: "stamps_advance {} s s'" and w: "work_bounded s s'"
    by (simp_all add: flow_advance_def same_frame_def)
  have "unclaimed s' \<subseteq> unclaimed s" using st eqs by (intro unclaimed_mono) simp_all
  moreover have "(x, y) \<notin> unclaimed s'" using l' eqs by (simp add: unclaimed_def)
  ultimately have "unclaimed s' \<subseteq> unclaimed s - {(x, y)}" by auto
  with r l' w
  show "\<exists>s' t pr e. propagate_flow n s (int x) (int y) lm = Inr (s', t, pr, e) \<and>
               last_use s' ! x ! y = int (UT s) \<and> unclaimed s' \<subseteq> unclaimed s - {(x, y)} \<and>
               flow_calls s' + card (unclaimed s') \<le> flow_calls s + card (unclaimed s)"
    unfolding work_bounded_def by blast
next
  fix n
  assume old: "\<forall>x < rows s. \<forall>y < cols s. last_use s ! x ! y \<le> int (UT s)"
    and n: "rows s * cols s \<le> n"
  from flow_sweep_returns [OF assms old n]
  obtain s' moved where r: "flow_sweep n s = Inr (s', moved)"
    and adv: "flow_advance {} (s\<lparr>UT := UT s + 2\<rparr>) s'" and se: "settled s'"
    by blast
  from adv have eqs: "rows s' = rows s" "cols s' = cols s" "UT s' = UT s + 2"
    and w: "work_bounded (s\<lparr>UT := UT s + 2\<rparr>) s'"
    by (simp_all add: flow_advance_def same_frame_def)
  from w have "flow_calls s' \<le> flow_calls s + card (unclaimed (s\<lparr>UT := UT s + 2\<rparr>))"
    by (simp add: work_bounded_def)
  also have "\<dots> \<le> flow_calls s + rows s * cols s"
    using card_unclaimed_le [of "s\<lparr>UT := UT s + 2\<rparr>"] by simp
  finally have calls: "flow_calls s' \<le> flow_calls s + rows s * cols s" .
  have "\<forall>x < rows s. \<forall>y < cols s. last_use s' ! x ! y \<le> int (UT s')"
    using se eqs by (fastforce simp: settled_def)
  with r calls eqs
  show "\<exists>s' prop. flow_sweep n s = Inr (s', prop) \<and>
               flow_calls s' \<le> flow_calls s + rows s * cols s \<and> UT s' = UT s + 2 \<and>
               (\<forall>x < rows s. \<forall>y < cols s. last_use s' ! x ! y \<le> int (UT s'))"
    by blast
qed

lemma flow_wf_ring: "flow_wf ring_flow"
  by code_simp

lemma ring_sweep: "map_sum id (\<lambda>(s', prop). (velocity_flow s', last_use s', flow_calls s', UT s', prop))
     (flow_sweep 16 ring_flow) =
   Inr ([replicate 4 [0, 0, 0, 0],
         [[0, 0, 0, 0], [0, 0, 0, 1 / 2], [0, 1 / 2, 0, 0], [0, 0, 0, 0]],
         [[0, 0, 0, 0], [1 / 2, 0, 0, 0], [0, 0, 1 / 2, 0], [0, 0, 0, 0]],
         replicate 4 [0, 0, 0, 0]],
        [[0, 0, 0, 0], [0, 2, 2, 0], [0, 2, 2, 0], [0, 0, 0, 0]], 4, 2, True)"
  by code_simp

theorem propagate_flow_terminates_witness:
  "flow_wf ring_flow \<and> rows ring_flow * cols ring_flow \<le> 16 \<and>
   (\<exists>s' moved. flow_sweep 16 ring_flow = Inr (s', moved) \<and> flow_calls s' = 4 \<and>
        flow_calls s' \<le> flow_calls ring_flow + rows ring_flow * cols ring_flow) \<and>
   field_data (ring_flow\<lparr>UT := 2\<rparr>) ! 1 ! 1 \<noteq> CHR ''#'' \<and>
   last_use (ring_flow\<lparr>UT := 2\<rparr>) ! 1 ! 1 < int (UT (ring_flow\<lparr>UT := 2\<rparr>)) - 1 \<and>
   (\<exists>s' t pr e. propagate_flow 16 (ring_flow\<lparr>UT := 2\<rparr>) 1 1 1 = Inr (s', t, pr, e) \<and>
        last_use s' ! 1 ! 1 = 2)"
proof -
  have wf: "flow_wf ring_flow" by (rule flow_wf_ring)
  have old: "\<forall>x < rows ring_flow. \<forall>y < cols ring_flow.
      last_use ring_flow ! x ! y \<le> int (UT ring_flow)"
    by (simp add: ring_flow_def)
  have n: "rows ring_flow * cols ring_flow \<le> 16" by (simp add: ring_flow_def)
  from propagate_flow_terminates [OF wf] old n
  obtain s' moved where r: "flow_sweep 16 ring_flow = Inr (s', moved)"
    and b: "flow_calls s' \<le> flow_calls ring_flow + rows ring_flow * cols ring_flow"
    by blast
  from ring_sweep r have c: "flow_calls s' = 4" by simp
  have wf2: "flow_wf (ring_flow\<lparr>UT := 2\<rparr>)" using wf by (simp add: flow_wf_def)
  have f: "field_data (ring_flow\<lparr>UT := 2\<rparr>) ! 1 ! 1 \<noteq> CHR ''#''"
    and l: "last_use (ring_flow\<lparr>UT := 2\<rparr>) ! 1 ! 1 < int (UT (ring_flow\<lparr>UT := 2\<rparr>)) - 1"
    and xy: "(1::nat) < rows (ring_flow\<lparr>UT := 2\<rparr>)" "(1::nat) < cols (ring_flow\<lparr>UT := 2\<rparr>)"
    by (simp_all add: ring_flow_def)
  have cu: "card (unclaimed (ring_flow\<lparr>UT := 2\<rparr>)) \<le> 16"
    using card_unclaimed_le [of "ring_flow\<lparr>UT := 2\<rparr>"] by (simp add: ring_flow_def)
  from propagate_flow_terminates [OF wf2] xy f l cu
  obtain u t pr e where "propagate_flow 16 (ring_flow\<lparr>UT := 2\<rparr>) (int 1) (int 1) 1 = Inr (u, t, pr, e)"
    "last_use u ! 1 ! 1 = int (UT (ring_flow\<lparr>UT := 2\<rparr>))"
    by blast
  then have "\<exists>s' t pr e. propagate_flow 16 (ring_flow\<lparr>UT := 2\<rparr>) 1 1 1 = Inr (s', t, pr, e) \<and>
        last_use s' ! 1 ! 1 = 2"
    by auto
  with wf n r b c f l show ?thesis by blast
qed

subsection \<open>Walls are never written\<close>







































































text \<open>The states that the constructor builds in the dynamic storage mode.\<close>

lemma FluidSimulator_flow_clear:
  fixes s :: "('a::field) simulator"
  assumes "FluidSimulator 0 0 parse_size stod parse_rho mt19937 input = Inr s"
  shows "flow_clear s \<and> \<not> use_static s"
proof -
  let ?m = "FluidSimulator_members 0 0 (mt19937 1337) input :: 'a simulator"
  from assms have i: "initialize_field 0 0 parse_size stod parse_rho ?m = Inr s"
    by (simp add: FluidSimulator_def)
  then obtain l0 where "at1 (field_data ?m) 0 = Inr l0"
    by (auto simp: initialize_field_def sbind_Inr_iff)
  moreover obtain r c where "parse_size l0 = (r, c)" by (cases "parse_size l0")
  moreover have "\<not> use_static ?m" by (simp add: FluidSimulator_members_def)
  ultimately have "velocity_flow s = VectorField_init (rows s) (cols s) \<and> \<not> use_static s"
    using i
    by (auto simp: initialize_field_def sbind_Inr_iff Let_def split: option.splits if_splits)
  then show ?thesis
    by (auto simp: flow_clear_def in_grid_def VectorField_init_def)
qed



end
